theory Spec2Isabelle
  imports
    Complex_Main
    "HOL-Library.AList"
    "HOL-Library.Char_ord"
    "HOL-Library.List_Lexorder"
    "HOL-Library.Option_ord"
    "HOL-Library.Product_Lexorder"
begin

section \<open>The unified token ledger and the referral actions\<close>

text \<open>
  A shallow embedding of the server actions of \<^verbatim>\<open>src/actions/unifiedTokenActions.ts\<close> and
  of the referral actions (the second source file, which imports \<^verbatim>\<open>increment\<close>).
  The hosted document database is an explicit state: three collections of documents.
  Every action is a function from the environment of one call and the state before to the
  returned object and the state after.

  Conventions of the model.
  \<^item> A JavaScript \<^verbatim>\<open>number\<close> is an IEEE 754 double, and every sum and product is rounded
    as the hardware rounds it (the type \<open>number\<close> below).
  \<^item> A timestamp is a number of milliseconds (\<^typ>\<open>int\<close>); \<^verbatim>\<open>Timestamp.now()\<close> and
    \<^verbatim>\<open>Date.now()\<close> read one clock value per call.
  \<^item> A field that a document may lack is an \<^typ>\<open>'a option\<close>.
  \<^item> A call runs alone: the read before a transaction and the transaction see the same
    state (the interleaving of concurrent calls is outside the model).
  \<^item> \<^verbatim>\<open>revalidatePath\<close> and \<^verbatim>\<open>console.error\<close> touch no document and are left out.
\<close>

subsection \<open>Numbers\<close>

text \<open>
  A JavaScript \<^verbatim>\<open>number\<close> is an IEEE 754 binary64 value: a finite double, an infinity or
  NaN. \<open>Finite q\<close> is the finite double whose value is the rational \<open>q\<close>. An arithmetic
  operation computes the exact result and rounds it to the nearest double, a tie going to
  the even significand (\<open>round64\<close>): 53 bits of precision, exponents from -1022 (below
  which the spacing stays at 2 to the power -1074) up to 1023 (beyond which the result is an
  infinity).

  \<open>bits n\<close> is the length of the binary numeral of \<open>n\<close>, and \<open>binade x\<close>, for a positive
  \<open>x\<close>, is the exponent \<open>k\<close> with \<open>pow2 k \<le> x < pow2 (k + 1)\<close>.
\<close>

datatype number = Finite rat | PosInf | NegInf | NaN

fun bits :: "nat \<Rightarrow> nat" where
  "bits n = (if n = 0 then 0 else Suc (bits (n div 2)))"

declare bits.simps [simp del]

definition pow2 :: "int \<Rightarrow> rat" where
  "pow2 k = (if 0 \<le> k then 2 ^ nat k else 1 / 2 ^ nat (- k))"

definition binade :: "rat \<Rightarrow> int" where
  "binade x =
     (if 1 \<le> x then int (bits (nat \<lfloor>x\<rfloor>)) - 1
      else (let b = int (bits (nat \<lfloor>1 / x\<rfloor>)) - 1
            in if x = pow2 (- b) then - b else - b - 1))"

definition round_half_even :: "rat \<Rightarrow> int" where
  "round_half_even x =
     (let f = \<lfloor>x\<rfloor>; d = x - of_int f
      in if d < 1 / 2 then f else if 1 / 2 < d then f + 1 else if even f then f else f + 1)"

definition round64 :: "rat \<Rightarrow> number" where
  "round64 x =
     (if x = 0 then Finite 0
      else (let k = max (binade \<bar>x\<bar>) (- 1022);
                ulp = pow2 (k - 52);
                y = of_int (round_half_even (x / ulp)) * ulp
            in if pow2 1024 \<le> y then PosInf
               else if y \<le> - pow2 1024 then NegInf else Finite y))"

text \<open>The values of the type that are doubles: a rational that rounding leaves alone.\<close>

definition is_double :: "number \<Rightarrow> bool" where
  "is_double x = (case x of Finite q \<Rightarrow> round64 q = Finite q | _ \<Rightarrow> True)"

text \<open>The sign of a number, with 0 for a zero and for NaN.\<close>

definition sign :: "number \<Rightarrow> int" where
  "sign x = (case x of Finite q \<Rightarrow> (if 0 < q then 1 else if q < 0 then - 1 else 0)
     | PosInf \<Rightarrow> 1 | NegInf \<Rightarrow> - 1 | NaN \<Rightarrow> 0)"

text \<open>\<^verbatim>\<open>x + y\<close>, \<^verbatim>\<open>-x\<close>, \<^verbatim>\<open>x * y\<close> and \<^verbatim>\<open>x / y\<close>. The sign of a zero is not kept, so a zero
  divisor is taken as positive; the two divisions of the source are guarded by
  \<^verbatim>\<open>totalCommissionTokens > 0\<close>.\<close>

definition fadd :: "number \<Rightarrow> number \<Rightarrow> number" where
  "fadd x y =
     (case (x, y) of
        (Finite a, Finite b) \<Rightarrow> round64 (a + b)
      | (Finite a, _) \<Rightarrow> y
      | (_, Finite b) \<Rightarrow> x
      | _ \<Rightarrow> if x = y then x else NaN)"

definition fneg :: "number \<Rightarrow> number" where
  "fneg x = (case x of Finite a \<Rightarrow> Finite (- a) | PosInf \<Rightarrow> NegInf | NegInf \<Rightarrow> PosInf
     | NaN \<Rightarrow> NaN)"

definition fmul :: "number \<Rightarrow> number \<Rightarrow> number" where
  "fmul x y =
     (case (x, y) of
        (Finite a, Finite b) \<Rightarrow> round64 (a * b)
      | _ \<Rightarrow> if x = NaN \<or> y = NaN \<or> sign x * sign y = 0 then NaN
             else if 0 < sign x * sign y then PosInf else NegInf)"

definition fdiv :: "number \<Rightarrow> number \<Rightarrow> number" where
  "fdiv x y =
     (case (x, y) of
        (Finite a, Finite b) \<Rightarrow>
          if b \<noteq> 0 then round64 (a / b)
          else if a = 0 then NaN else if 0 < a then PosInf else NegInf
      | (Finite a, _) \<Rightarrow> if y = NaN then NaN else Finite 0
      | (_, Finite b) \<Rightarrow>
          if x = NaN then NaN else if (0 \<le> b) = (x = PosInf) then PosInf else NegInf
      | _ \<Rightarrow> NaN)"

text \<open>The length of an array as a number, and \<^verbatim>\<open>x || 0\<close> (NaN and 0 are falsy).\<close>

definition of_count :: "nat \<Rightarrow> number" where
  "of_count n = round64 (of_nat n)"

definition or_zero :: "number \<Rightarrow> number" where
  "or_zero x = (if x = NaN then Finite 0 else x)"

subsection \<open>Documents\<close>

datatype TokenType = deposit | withdrawal | bonus | referral_commission | cashback | raffle_entry

datatype TokenStatus = pending | approved | rejected | expired

text \<open>A document of the legacy collection \<^verbatim>\<open>transactions\<close>, with the fields the migration
  reads and writes. The casts \<^verbatim>\<open>as TokenType\<close> and \<^verbatim>\<open>as TokenStatus\<close> of the source are taken
  at their word.\<close>

record LegacyTransaction =
  tx_userId :: string
  tx_type :: TokenType
  tx_amount :: number
  tx_status :: TokenStatus
  tx_createdAt :: "int option"
  tx_approvedAt :: "int option"
  tx_approvedBy :: "string option"
  migratedToToken :: "string option"
  migratedAt :: "int option"
  migratedBy :: "string option"

text \<open>Free-form metadata: the values the two source files store in it.\<close>

datatype MetaValue = MStr string | MNum number | MDoc LegacyTransaction

type_synonym Metadata = "(string \<times> MetaValue) list"

text \<open>Modelled from the spec: the type \<^verbatim>\<open>UnifiedToken\<close> of \<^verbatim>\<open>@/types\<close> is not among the
  sources. Section 3 of the specification lists owner user id, type, amount, status,
  free-form metadata, creation time, optional expiry time and audit fields; the record has
  these and every further field the actions write (\<^verbatim>\<open>adminNotes\<close>, \<^verbatim>\<open>rejectedAt\<close>,
  \<^verbatim>\<open>rejectedBy\<close>, \<^verbatim>\<open>expiredAt\<close>, \<^verbatim>\<open>updatedAt\<close>). The field \<^verbatim>\<open>type\<close> is named
  \<open>tokenType\<close> here.\<close>

record UnifiedToken =
  userId :: string
  tokenType :: TokenType
  amount :: number
  status :: TokenStatus
  metadata :: Metadata
  createdAt :: int
  expiresAt :: "int option"
  approvedAt :: "int option"
  approvedBy :: "string option"
  adminNotes :: "string option"
  rejectedAt :: "int option"
  rejectedBy :: "string option"
  rejectionReason :: "string option"
  expiredAt :: "int option"
  updatedAt :: "int option"

text \<open>Modelled from the spec: the type \<^verbatim>\<open>ReferralStats\<close> of \<^verbatim>\<open>@/types\<close>, with the five
  fields of the default object that \<^verbatim>\<open>getUserReferralStatsAction\<close> returns.\<close>

record ReferralStats =
  totalReferrals :: "number option"
  totalCommissions :: "number option"
  pendingCommissions :: "number option"
  approvedCommissions :: "number option"
  lastReferralDate :: "int option"

text \<open>A document of the collection \<^verbatim>\<open>users\<close>, with the fields the actions read or write.
  \<open>typeTotal u t\<close> is the field whose name is the type \<open>t\<close> followed by \<^verbatim>\<open>Total\<close>
  (\<^verbatim>\<open>depositTotal\<close>, \<^verbatim>\<open>withdrawalTotal\<close>, ...).\<close>

record User =
  balance :: "number option"
  typeTotal :: "TokenType \<Rightarrow> number option"
  referralCode :: "string option"
  referredBy :: "string option"
  referralProcessedAt :: "int option"
  referralStats :: "ReferralStats option"
  email :: "string option"
  displayName :: "string option"
  totalDeposits :: "number option"

type_synonym 'd collection = "(string \<times> 'd) list"

text \<open>The database: each collection is an association list from document id to document.\<close>

record World =
  users :: "User collection"
  unifiedTokens :: "UnifiedToken collection"
  transactions :: "LegacyTransaction collection"

definition wf_world :: "World \<Rightarrow> bool" where
  "wf_world w \<longleftrightarrow>
     distinct (map fst (users w)) \<and> distinct (map fst (unifiedTokens w)) \<and>
     distinct (map fst (transactions w))"

subsection \<open>What a call returns, and what it can throw\<close>

record TokenStatistics =
  st_total :: nat
  st_pending :: nat
  st_approved :: nat
  st_rejected :: nat
  st_expired :: nat
  st_byType :: "TokenType \<Rightarrow> nat"
  st_pendingAmount :: number
  st_approvedAmount :: number
  st_rejectedAmount :: number

record ReferredUser =
  ru_id :: string
  ru_email :: "string option"
  ru_displayName :: "string option"
  ru_referralProcessedAt :: "int option"
  ru_totalDeposits :: number

record ReferralAnalysis =
  recentReferrals :: nat
  totalCommissionTokens :: nat
  totalCommissionAmount :: number
  approvedCommissionCount :: nat
  approvalRate :: number
  averageCommissionAmount :: number

text \<open>The values the exported actions return: the objects with \<^verbatim>\<open>success: true\<close> and their
  payload, the object \<^verbatim>\<open>{success: false, error}\<close>, and for \<^verbatim>\<open>getUserReferralStatsAction\<close>
  a bare statistics object or \<^verbatim>\<open>null\<close>.\<close>

datatype Result =
    Ok
  | OkTokenId string
  | OkToken string UnifiedToken
  | OkTokens "UnifiedToken collection"
  | OkDeleted nat
  | OkStats TokenStatistics
  | OkCommission number
  | OkReferredUsers "ReferredUser list"
  | OkCommissions "(string \<times> UnifiedToken \<times> (string option \<times> string option) option) list"
  | OkAnalysis ReferralAnalysis
  | Failure string
  | StatsValue ReferralStats
  | Null

datatype exn =
    Unavailable
  | NotFound
  | InvalidData
  | InvalidArgument
  | ReferenceError string
  | TypeError string

text \<open>The environment of one call: the clock, the id the database generates for a new
  document, which requests the backend rejects (\<open>fault e k\<close>: the request number \<open>k\<close> of
  the call fails, counted from 0), and the setting \<^verbatim>\<open>ignoreUndefinedProperties\<close> of the
  database handle exported by \<^verbatim>\<open>@/lib/firebase\<close> (not among the sources, so a parameter).\<close>

record Env =
  now :: int
  autoId :: string
  fault :: "nat \<Rightarrow> bool"
  ignoreUndefinedProperties :: bool

subsection \<open>Error strings\<close>

text \<open>The error strings are Turkish; a letter outside ASCII is written as its UTF-8 bytes.\<close>

definition c_cedilla :: string where "c_cedilla = [CHR 0xC3, CHR 0xA7]"
definition s_cedilla :: string where "s_cedilla = [CHR 0xC5, CHR 0x9F]"
definition dotless_i :: string where "dotless_i = [CHR 0xC4, CHR 0xB1]"
definition u_umlaut :: string where "u_umlaut = [CHR 0xC3, CHR 0xBC]"
definition dotted_I :: string where "dotted_I = [CHR 0xC4, CHR 0xB0]"

definition msg_create :: string where
  "msg_create = ''Token olu'' @ s_cedilla @ ''turulamad'' @ dotless_i"
definition msg_update :: string where
  "msg_update = ''Token g'' @ u_umlaut @ ''ncellenemedi''"
definition msg_token_not_found :: string where
  "msg_token_not_found = ''Token bulunamad'' @ dotless_i"
definition msg_get :: string where
  "msg_get = ''Token al'' @ dotless_i @ ''namad'' @ dotless_i"
definition msg_get_tokens :: string where
  "msg_get_tokens = ''Tokenlar al'' @ dotless_i @ ''namad'' @ dotless_i"
definition msg_already_processed :: string where
  "msg_already_processed = ''Token zaten i'' @ s_cedilla @ ''lenmi'' @ s_cedilla"
definition msg_approve :: string where
  "msg_approve = ''Token onaylanamad'' @ dotless_i"
definition msg_reject :: string where
  "msg_reject = ''Token reddedilemedi''"
definition msg_cleanup :: string where
  "msg_cleanup = ''S'' @ u_umlaut @ ''resi dolmu'' @ s_cedilla @ '' tokenlar temizlenemedi''"
definition msg_statistics :: string where
  "msg_statistics = dotted_I @ ''statistikler al'' @ dotless_i @ ''namad'' @ dotless_i"
definition msg_tx_not_found :: string where
  "msg_tx_not_found = ''Transaction bulunamad'' @ dotless_i"
definition msg_migration :: string where
  "msg_migration = ''Migration ba'' @ s_cedilla @ ''ar'' @ dotless_i @ ''s'' @ dotless_i @ ''z''"
definition msg_invalid_referral :: string where
  "msg_invalid_referral = ''Ge'' @ c_cedilla @ ''ersiz referral kodu''"
definition msg_referral :: string where
  "msg_referral = ''Referral i'' @ s_cedilla @ ''lemi ba'' @ s_cedilla @ ''ar'' @ dotless_i @ ''s''
     @ dotless_i @ ''z''"
definition msg_commission_tokens :: string where
  "msg_commission_tokens = ''Komisyon tokenlar'' @ dotless_i @ '' al'' @ dotless_i @ ''namad''
     @ dotless_i"
definition msg_approve_commission :: string where
  "msg_approve_commission = ''Komisyon onaylanamad'' @ dotless_i"
definition msg_chain :: string where
  "msg_chain = ''Referral zinciri al'' @ dotless_i @ ''namad'' @ dotless_i"
definition msg_pending_commissions :: string where
  "msg_pending_commissions = ''Bekleyen komisyonlar al'' @ dotless_i @ ''namad'' @ dotless_i"
definition msg_analysis :: string where
  "msg_analysis = ''Analiz yap'' @ dotless_i @ ''lamad'' @ dotless_i"

subsection \<open>Writes\<close>

text \<open>The object passed to \<^verbatim>\<open>update\<close> is a list of field assignments, applied in order.
  \<open>Inc_\<close> is a field whose value is \<^verbatim>\<open>increment(n)\<close>: the database sets a field that is
  absent to \<open>n\<close> and otherwise adds \<open>n\<close> to the number stored in the field, in double
  arithmetic. (The database keeps a number that the client sends as an integer in 64 bits
  and adds two such numbers as integers; that agrees with the sum of the doubles as long
  as the sum stays below 2 to the power 53 in magnitude, and the model does not tell the
  two representations apart.)\<close>

datatype TokenField =
    Set_userId string
  | Set_tokenType TokenType
  | Set_amount number
  | Set_status TokenStatus
  | Set_metadata Metadata
  | Set_createdAt int
  | Set_expiresAt int
  | Set_approvedAt int
  | Set_approvedBy string
  | Set_adminNotes string
  | Set_rejectedAt int
  | Set_rejectedBy string
  | Set_rejectionReason string
  | Set_expiredAt int
  | Set_updatedAt int

datatype UserField =
    Inc_balance number
  | Inc_typeTotal TokenType number
  | Inc_totalCommissions number
  | Inc_pendingCommissions number
  | Inc_approvedCommissions number
  | Inc_totalReferrals number
  | Set_lastReferralDate int
  | Set_referredBy string
  | Set_referralProcessedAt int

datatype LegacyField =
    Set_migratedToToken string
  | Set_migratedAt int
  | Set_migratedBy string

datatype Write =
    SetToken string UnifiedToken
  | UpdateToken string "TokenField list"
  | UpdateUser string "UserField list"
  | UpdateLegacy string "LegacyField list"

fun setTokenField :: "TokenField \<Rightarrow> UnifiedToken \<Rightarrow> UnifiedToken" where
  "setTokenField (Set_userId v) t = t\<lparr>userId := v\<rparr>"
| "setTokenField (Set_tokenType v) t = t\<lparr>tokenType := v\<rparr>"
| "setTokenField (Set_amount v) t = t\<lparr>amount := v\<rparr>"
| "setTokenField (Set_status v) t = t\<lparr>status := v\<rparr>"
| "setTokenField (Set_metadata v) t = t\<lparr>metadata := v\<rparr>"
| "setTokenField (Set_createdAt v) t = t\<lparr>createdAt := v\<rparr>"
| "setTokenField (Set_expiresAt v) t = t\<lparr>expiresAt := Some v\<rparr>"
| "setTokenField (Set_approvedAt v) t = t\<lparr>approvedAt := Some v\<rparr>"
| "setTokenField (Set_approvedBy v) t = t\<lparr>approvedBy := Some v\<rparr>"
| "setTokenField (Set_adminNotes v) t = t\<lparr>adminNotes := Some v\<rparr>"
| "setTokenField (Set_rejectedAt v) t = t\<lparr>rejectedAt := Some v\<rparr>"
| "setTokenField (Set_rejectedBy v) t = t\<lparr>rejectedBy := Some v\<rparr>"
| "setTokenField (Set_rejectionReason v) t = t\<lparr>rejectionReason := Some v\<rparr>"
| "setTokenField (Set_expiredAt v) t = t\<lparr>expiredAt := Some v\<rparr>"
| "setTokenField (Set_updatedAt v) t = t\<lparr>updatedAt := Some v\<rparr>"

definition incremented :: "number \<Rightarrow> number option \<Rightarrow> number option" where
  "incremented n v = (case v of None \<Rightarrow> Some n | Some x \<Rightarrow> Some (fadd x n))"

definition no_stats :: ReferralStats where
  "no_stats = \<lparr>totalReferrals = None, totalCommissions = None, pendingCommissions = None,
     approvedCommissions = None, lastReferralDate = None\<rparr>"

text \<open>A dotted path \<^verbatim>\<open>referralStats.f\<close> writes inside the embedded map, and creates the map
  when the document has none.\<close>

definition stats_of :: "User \<Rightarrow> ReferralStats" where
  "stats_of u = (case referralStats u of None \<Rightarrow> no_stats | Some s \<Rightarrow> s)"

fun setUserField :: "UserField \<Rightarrow> User \<Rightarrow> User" where
  "setUserField (Inc_balance n) u = u\<lparr>balance := incremented n (balance u)\<rparr>"
| "setUserField (Inc_typeTotal ty n) u =
     u\<lparr>typeTotal := (typeTotal u)(ty := incremented n (typeTotal u ty))\<rparr>"
| "setUserField (Inc_totalCommissions n) u =
     u\<lparr>referralStats := Some ((stats_of u)
        \<lparr>totalCommissions := incremented n (totalCommissions (stats_of u))\<rparr>)\<rparr>"
| "setUserField (Inc_pendingCommissions n) u =
     u\<lparr>referralStats := Some ((stats_of u)
        \<lparr>pendingCommissions := incremented n (pendingCommissions (stats_of u))\<rparr>)\<rparr>"
| "setUserField (Inc_approvedCommissions n) u =
     u\<lparr>referralStats := Some ((stats_of u)
        \<lparr>approvedCommissions := incremented n (approvedCommissions (stats_of u))\<rparr>)\<rparr>"
| "setUserField (Inc_totalReferrals n) u =
     u\<lparr>referralStats := Some ((stats_of u)
        \<lparr>totalReferrals := incremented n (totalReferrals (stats_of u))\<rparr>)\<rparr>"
| "setUserField (Set_lastReferralDate v) u =
     u\<lparr>referralStats := Some ((stats_of u)\<lparr>lastReferralDate := Some v\<rparr>)\<rparr>"
| "setUserField (Set_referredBy v) u = u\<lparr>referredBy := Some v\<rparr>"
| "setUserField (Set_referralProcessedAt v) u = u\<lparr>referralProcessedAt := Some v\<rparr>"

fun setLegacyField :: "LegacyField \<Rightarrow> LegacyTransaction \<Rightarrow> LegacyTransaction" where
  "setLegacyField (Set_migratedToToken v) t = t\<lparr>migratedToToken := Some v\<rparr>"
| "setLegacyField (Set_migratedAt v) t = t\<lparr>migratedAt := Some v\<rparr>"
| "setLegacyField (Set_migratedBy v) t = t\<lparr>migratedBy := Some v\<rparr>"

text \<open>\<^verbatim>\<open>update\<close> fails on a document that does not exist; \<^verbatim>\<open>set\<close> creates or replaces.\<close>

definition updateIn :: "string \<Rightarrow> ('d \<Rightarrow> 'd) \<Rightarrow> 'd collection \<Rightarrow> exn + 'd collection" where
  "updateIn i f c =
     (case map_of c i of None \<Rightarrow> Inl NotFound | Some d \<Rightarrow> Inr (AList.update i (f d) c))"

fun apply_write :: "Write \<Rightarrow> World \<Rightarrow> exn + World" where
  "apply_write (SetToken i t) w = Inr (w\<lparr>unifiedTokens := AList.update i t (unifiedTokens w)\<rparr>)"
| "apply_write (UpdateToken i fs) w =
     (case updateIn i (fold setTokenField fs) (unifiedTokens w) of
        Inl x \<Rightarrow> Inl x | Inr c \<Rightarrow> Inr (w\<lparr>unifiedTokens := c\<rparr>))"
| "apply_write (UpdateUser i fs) w =
     (case updateIn i (fold setUserField fs) (users w) of
        Inl x \<Rightarrow> Inl x | Inr c \<Rightarrow> Inr (w\<lparr>users := c\<rparr>))"
| "apply_write (UpdateLegacy i fs) w =
     (case updateIn i (fold setLegacyField fs) (transactions w) of
        Inl x \<Rightarrow> Inl x | Inr c \<Rightarrow> Inr (w\<lparr>transactions := c\<rparr>))"

text \<open>The writes of a transaction or of a batch are applied in order, all or none.\<close>

fun commit :: "Write list \<Rightarrow> World \<Rightarrow> exn + World" where
  "commit [] w = Inr w"
| "commit (x # xs) w = (case apply_write x w of Inl ex \<Rightarrow> Inl ex | Inr w' \<Rightarrow> commit xs w')"

subsection \<open>Requests to the database\<close>

definition getDoc :: "Env \<Rightarrow> nat \<Rightarrow> 'd collection \<Rightarrow> string \<Rightarrow> exn + 'd option" where
  "getDoc e k c i = (if fault e k then Inl Unavailable else Inr (map_of c i))"

definition getDocs :: "Env \<Rightarrow> nat \<Rightarrow> 'd collection \<Rightarrow> exn + 'd collection" where
  "getDocs e k docs = (if fault e k then Inl Unavailable else Inr docs)"

definition addDoc :: "Env \<Rightarrow> nat \<Rightarrow> UnifiedToken \<Rightarrow> World \<Rightarrow> (exn + string) \<times> World" where
  "addDoc e k t w =
     (if fault e k then (Inl Unavailable, w)
      else (Inr (autoId e), w\<lparr>unifiedTokens := AList.update (autoId e) t (unifiedTokens w)\<rparr>))"

definition updateDoc :: "Env \<Rightarrow> nat \<Rightarrow> Write \<Rightarrow> World \<Rightarrow> (exn + unit) \<times> World" where
  "updateDoc e k wr w =
     (if fault e k then (Inl Unavailable, w)
      else (case apply_write wr w of Inl x \<Rightarrow> (Inl x, w) | Inr w' \<Rightarrow> (Inr (), w')))"

text \<open>\<^verbatim>\<open>runTransaction\<close>: the callback \<open>body\<close> either throws or has queued its writes; a
  callback that throws commits nothing.\<close>

definition runTransaction ::
    "Env \<Rightarrow> nat \<Rightarrow> exn + Write list \<Rightarrow> World \<Rightarrow> (exn + unit) \<times> World" where
  "runTransaction e k body w =
     (case body of
        Inl x \<Rightarrow> (Inl x, w)
      | Inr ws \<Rightarrow>
          (if fault e k then (Inl Unavailable, w)
           else (case commit ws w of Inl x \<Rightarrow> (Inl x, w) | Inr w' \<Rightarrow> (Inr (), w'))))"

definition batchCommit :: "Env \<Rightarrow> nat \<Rightarrow> Write list \<Rightarrow> World \<Rightarrow> (exn + unit) \<times> World" where
  "batchCommit e k ws w =
     (if fault e k then (Inl Unavailable, w)
      else (case commit ws w of Inl x \<Rightarrow> (Inl x, w) | Inr w' \<Rightarrow> (Inr (), w')))"

subsection \<open>Queries\<close>

text \<open>A query filters a collection, orders it and cuts it. Without \<^verbatim>\<open>orderBy\<close> the
  documents come in the order of their ids; after the ordering field, ties are broken by
  the id, in the same direction.\<close>

definition whereDocs :: "('d \<Rightarrow> bool) \<Rightarrow> 'd collection \<Rightarrow> 'd collection" where
  "whereDocs p c = filter (\<lambda>(i, d). p d) c"

definition orderByName :: "'d collection \<Rightarrow> 'd collection" where
  "orderByName c = sort_key fst c"

definition orderByAsc :: "('d \<Rightarrow> 'k::linorder) \<Rightarrow> 'd collection \<Rightarrow> 'd collection" where
  "orderByAsc f c = sort_key (\<lambda>(i, d). (f d, i)) c"

definition orderByDesc :: "('d \<Rightarrow> 'k::linorder) \<Rightarrow> 'd collection \<Rightarrow> 'd collection" where
  "orderByDesc f c = rev (orderByAsc f c)"

text \<open>\<^verbatim>\<open>limit(n)\<close> throws unless \<open>n\<close> is positive.\<close>

definition limitDocs :: "int \<Rightarrow> 'd collection \<Rightarrow> exn + 'd collection" where
  "limitDocs n c = (if n \<le> 0 then Inl InvalidArgument else Inr (take (nat n) c))"

text \<open>\<^verbatim>\<open>try { ... } catch (error) { return { success: false, error: msg } }\<close>: the
  first component of \<open>r\<close> is what the \<^verbatim>\<open>try\<close> block threw (\<open>Inl\<close>) or returned (\<open>Inr\<close>),
  the second the database it left. Every exported action \<open>f\<close> is its \<^verbatim>\<open>try\<close> block \<open>f_try\<close>
  under its \<^verbatim>\<open>catch\<close>.\<close>

definition try_catch :: "string \<Rightarrow> (exn + Result) \<times> World \<Rightarrow> Result \<times> World" where
  "try_catch msg r = (case fst r of Inl x \<Rightarrow> Failure msg | Inr v \<Rightarrow> v, snd r)"

subsection \<open>The names each module imports\<close>

text \<open>The import list of \<^verbatim>\<open>unifiedTokenActions.ts\<close> (lines 4 to 19) and of the referral
  actions (lines 4 to 18), from \<^verbatim>\<open>firebase/firestore\<close>. An identifier that a module neither
  imports nor declares is unbound there: evaluating it throws a \<^verbatim>\<open>ReferenceError\<close>.\<close>

definition unifiedTokenActions_imports :: "string list" where
  "unifiedTokenActions_imports =
     [''collection'', ''doc'', ''getDoc'', ''getDocs'', ''addDoc'', ''updateDoc'', ''deleteDoc'',
      ''query'', ''where'', ''orderBy'', ''limit'', ''Timestamp'', ''runTransaction'',
      ''writeBatch'']"

definition referralActions_imports :: "string list" where
  "referralActions_imports =
     [''collection'', ''doc'', ''getDoc'', ''getDocs'', ''query'', ''where'', ''orderBy'',
      ''limit'', ''updateDoc'', ''increment'', ''writeBatch'', ''Timestamp'', ''runTransaction'']"

text \<open>The call \<^verbatim>\<open>increment(n)\<close> in a module that imports the names \<open>scope\<close>.\<close>

definition increment :: "string list \<Rightarrow> number \<Rightarrow> exn + number" where
  "increment scope n =
     (if ''increment'' \<in> set scope then Inr n else Inl (ReferenceError ''increment''))"

subsection \<open>The actions of \<^verbatim>\<open>unifiedTokenActions.ts\<close>\<close>

definition day_ms :: int where
  "day_ms = 24 * 60 * 60 * 1000"

text \<open>\<^verbatim>\<open>createUnifiedTokenAction\<close>. The ternary on \<^verbatim>\<open>expiresInDays\<close> takes an absent argument
  and 0 alike to \<^verbatim>\<open>undefined\<close>; \<^verbatim>\<open>addDoc\<close> refuses an \<^verbatim>\<open>undefined\<close> field value unless the
  database handle ignores undefined properties.\<close>

definition createUnifiedTokenAction_try ::
    "Env \<Rightarrow> string \<Rightarrow> TokenType \<Rightarrow> number \<Rightarrow> Metadata option \<Rightarrow> int option \<Rightarrow> World
      \<Rightarrow> (exn + Result) \<times> World" where
  "createUnifiedTokenAction_try e uid ty amt md expiresInDays w =
     (let expires =
            (case expiresInDays of
               None \<Rightarrow> None
             | Some d \<Rightarrow> if d = 0 then None else Some (now e + d * day_ms));
          tokenData =
            \<lparr>userId = uid, tokenType = ty, amount = amt, status = pending,
             metadata = (case md of None \<Rightarrow> [] | Some m \<Rightarrow> m),
             createdAt = now e, expiresAt = expires,
             approvedAt = None, approvedBy = None, adminNotes = None, rejectedAt = None,
             rejectedBy = None, rejectionReason = None, expiredAt = None, updatedAt = None\<rparr>
      in (if expires = None \<and> \<not> ignoreUndefinedProperties e then (Inl InvalidData, w)
          else (case addDoc e 0 tokenData w of
                  (Inl x, w') \<Rightarrow> (Inl x, w')
                | (Inr i, w') \<Rightarrow> (Inr (OkTokenId i), w'))))"

definition createUnifiedTokenAction ::
    "Env \<Rightarrow> string \<Rightarrow> TokenType \<Rightarrow> number \<Rightarrow> Metadata option \<Rightarrow> int option \<Rightarrow> World
      \<Rightarrow> Result \<times> World" where
  "createUnifiedTokenAction e uid ty amt md expiresInDays w =
     try_catch msg_create (createUnifiedTokenAction_try e uid ty amt md expiresInDays w)"

text \<open>\<^verbatim>\<open>updateUnifiedTokenAction\<close>: the fields of \<^verbatim>\<open>updates\<close>, then \<^verbatim>\<open>updatedAt\<close>.\<close>

definition updateUnifiedTokenAction_try ::
    "Env \<Rightarrow> string \<Rightarrow> TokenField list \<Rightarrow> World \<Rightarrow> (exn + Result) \<times> World" where
  "updateUnifiedTokenAction_try e tokenId updates w =
     (case updateDoc e 0 (UpdateToken tokenId (updates @ [Set_updatedAt (now e)])) w of
        (Inl x, w') \<Rightarrow> (Inl x, w')
      | (Inr u, w') \<Rightarrow> (Inr Ok, w'))"

definition updateUnifiedTokenAction ::
    "Env \<Rightarrow> string \<Rightarrow> TokenField list \<Rightarrow> World \<Rightarrow> Result \<times> World" where
  "updateUnifiedTokenAction e tokenId updates w =
     try_catch msg_update (updateUnifiedTokenAction_try e tokenId updates w)"

definition getUnifiedTokenAction_try ::
    "Env \<Rightarrow> string \<Rightarrow> World \<Rightarrow> (exn + Result) \<times> World" where
  "getUnifiedTokenAction_try e tokenId w =
     (case getDoc e 0 (unifiedTokens w) tokenId of
        Inl x \<Rightarrow> (Inl x, w)
      | Inr None \<Rightarrow> (Inr (Failure msg_token_not_found), w)
      | Inr (Some t) \<Rightarrow> (Inr (OkToken tokenId t), w))"

definition getUnifiedTokenAction ::
    "Env \<Rightarrow> string \<Rightarrow> World \<Rightarrow> Result \<times> World" where
  "getUnifiedTokenAction e tokenId w =
     try_catch msg_get (getUnifiedTokenAction_try e tokenId w)"

text \<open>\<^verbatim>\<open>getUserUnifiedTokensAction\<close>: the variable \<^verbatim>\<open>q\<close> is assigned up to three times, and
  the last assignment is the query that runs. \<^verbatim>\<open>limitCount\<close> defaults to 50.\<close>

definition getUserUnifiedTokensAction_try ::
    "Env \<Rightarrow> string \<Rightarrow> TokenType option \<Rightarrow> TokenStatus option \<Rightarrow> int option \<Rightarrow> World
      \<Rightarrow> (exn + Result) \<times> World" where
  "getUserUnifiedTokensAction_try e uid ty st limitCount w =
     (let n = (case limitCount of None \<Rightarrow> 50 | Some k \<Rightarrow> k);
          q0 = limitDocs n (orderByDesc createdAt
                 (whereDocs (\<lambda>t. userId t = uid) (unifiedTokens w)));
          q1 = (case ty of
                  None \<Rightarrow> q0
                | Some ty' \<Rightarrow>
                    limitDocs n (orderByDesc createdAt
                      (whereDocs (\<lambda>t. tokenType t = ty')
                        (whereDocs (\<lambda>t. userId t = uid) (unifiedTokens w)))));
          q2 = (case st of
                  None \<Rightarrow> q1
                | Some st' \<Rightarrow>
                    limitDocs n (orderByDesc createdAt
                      (whereDocs (\<lambda>t. status t = st')
                        (whereDocs (\<lambda>t. userId t = uid) (unifiedTokens w)))))
      in
           (case q0 of
              Inl x \<Rightarrow> (Inl x, w)
            | Inr d0 \<Rightarrow>
                (case q1 of
                   Inl x \<Rightarrow> (Inl x, w)
                 | Inr d1 \<Rightarrow>
                     (case q2 of
                        Inl x \<Rightarrow> (Inl x, w)
                      | Inr docs \<Rightarrow>
                          (case getDocs e 0 docs of
                             Inl x \<Rightarrow> (Inl x, w)
                           | Inr tokens \<Rightarrow> (Inr (OkTokens tokens), w))))))"

definition getUserUnifiedTokensAction ::
    "Env \<Rightarrow> string \<Rightarrow> TokenType option \<Rightarrow> TokenStatus option \<Rightarrow> int option \<Rightarrow> World
      \<Rightarrow> Result \<times> World" where
  "getUserUnifiedTokensAction e uid ty st limitCount w =
     try_catch msg_get_tokens (getUserUnifiedTokensAction_try e uid ty st limitCount w)"

text \<open>\<^verbatim>\<open>approveTokenAction\<close>. The callback of the transaction queues the update of the token
  and then evaluates the object literal for the owner, which calls \<^verbatim>\<open>increment\<close>. The
  function is given for any import list \<open>scope\<close>; the exported action is the one with the
  import list of its module.\<close>

definition approve_writes ::
    "string list \<Rightarrow> Env \<Rightarrow> string \<Rightarrow> string \<Rightarrow> string option \<Rightarrow> UnifiedToken
      \<Rightarrow> exn + Write list" where
  "approve_writes scope e tokenId adminUserId notes tokenData =
     (let tokenUpdate =
            UpdateToken tokenId
              [Set_status approved, Set_approvedAt (now e), Set_approvedBy adminUserId,
               Set_adminNotes (case notes of None \<Rightarrow> [] | Some s \<Rightarrow> s)];
          credit =
            (case increment scope (amount tokenData) of
               Inl x \<Rightarrow> Inl x
             | Inr inc \<Rightarrow>
                 Inr [tokenUpdate,
                      UpdateUser (userId tokenData)
                        [Inc_balance inc, Inc_typeTotal (tokenType tokenData) inc]])
      in case tokenType tokenData of
           deposit \<Rightarrow> credit
         | bonus \<Rightarrow> credit
         | referral_commission \<Rightarrow> credit
         | cashback \<Rightarrow> credit
         | withdrawal \<Rightarrow>
             (case increment scope (fneg (amount tokenData)) of
                Inl x \<Rightarrow> Inl x
              | Inr dec \<Rightarrow>
                  (case increment scope (amount tokenData) of
                     Inl x \<Rightarrow> Inl x
                   | Inr inc \<Rightarrow>
                       Inr [tokenUpdate,
                            UpdateUser (userId tokenData)
                              [Inc_balance dec, Inc_typeTotal withdrawal inc]]))
         | raffle_entry \<Rightarrow> Inr [tokenUpdate])"

definition approveTokenAction_try ::
    "string list \<Rightarrow> Env \<Rightarrow> string \<Rightarrow> string \<Rightarrow> string option \<Rightarrow> World
      \<Rightarrow> (exn + Result) \<times> World" where
  "approveTokenAction_try scope e tokenId adminUserId notes w =
     (case getDoc e 0 (unifiedTokens w) tokenId of
        Inl x \<Rightarrow> (Inl x, w)
      | Inr None \<Rightarrow> (Inr (Failure msg_token_not_found), w)
      | Inr (Some tokenData) \<Rightarrow>
          (if status tokenData \<noteq> pending then (Inr (Failure msg_already_processed), w)
           else (case runTransaction e 1
                        (approve_writes scope e tokenId adminUserId notes tokenData) w of
                   (Inl x, w') \<Rightarrow> (Inl x, w')
                 | (Inr u, w') \<Rightarrow> (Inr Ok, w'))))"

definition approveTokenAction_in ::
    "string list \<Rightarrow> Env \<Rightarrow> string \<Rightarrow> string \<Rightarrow> string option \<Rightarrow> World \<Rightarrow> Result \<times> World" where
  "approveTokenAction_in scope e tokenId adminUserId notes w =
     try_catch msg_approve (approveTokenAction_try scope e tokenId adminUserId notes w)"

definition approveTokenAction ::
    "Env \<Rightarrow> string \<Rightarrow> string \<Rightarrow> string option \<Rightarrow> World \<Rightarrow> Result \<times> World" where
  "approveTokenAction = approveTokenAction_in unifiedTokenActions_imports"

text \<open>\<^verbatim>\<open>rejectTokenAction\<close> reads nothing before it writes.\<close>

definition rejectTokenAction_try ::
    "Env \<Rightarrow> string \<Rightarrow> string \<Rightarrow> string \<Rightarrow> World \<Rightarrow> (exn + Result) \<times> World" where
  "rejectTokenAction_try e tokenId adminUserId reason w =
     (case updateDoc e 0
             (UpdateToken tokenId
                [Set_status rejected, Set_rejectedAt (now e), Set_rejectedBy adminUserId,
                 Set_rejectionReason reason]) w of
        (Inl x, w') \<Rightarrow> (Inl x, w')
      | (Inr u, w') \<Rightarrow> (Inr Ok, w'))"

definition rejectTokenAction ::
    "Env \<Rightarrow> string \<Rightarrow> string \<Rightarrow> string \<Rightarrow> World \<Rightarrow> Result \<times> World" where
  "rejectTokenAction e tokenId adminUserId reason w =
     try_catch msg_reject (rejectTokenAction_try e tokenId adminUserId reason w)"

text \<open>\<^verbatim>\<open>cleanupExpiredTokensAction\<close>. The query has an inequality on \<^verbatim>\<open>expiresAt\<close> and no
  \<^verbatim>\<open>orderBy\<close>, so its documents come by \<^verbatim>\<open>expiresAt\<close> and then by id; a token without
  \<^verbatim>\<open>expiresAt\<close> does not match.\<close>

definition is_expired :: "int \<Rightarrow> UnifiedToken \<Rightarrow> bool" where
  "is_expired t0 t \<longleftrightarrow>
     (case expiresAt t of None \<Rightarrow> False | Some x \<Rightarrow> x \<le> t0) \<and> status t = pending"

definition expiredQuery :: "int \<Rightarrow> World \<Rightarrow> UnifiedToken collection" where
  "expiredQuery t0 w = take 100 (orderByAsc expiresAt (whereDocs (is_expired t0) (unifiedTokens w)))"

definition cleanupExpiredTokensAction_try ::
    "Env \<Rightarrow> World \<Rightarrow> (exn + Result) \<times> World" where
  "cleanupExpiredTokensAction_try e w =
     (case getDocs e 0 (expiredQuery (now e) w) of
        Inl x \<Rightarrow> (Inl x, w)
      | Inr docs \<Rightarrow>
          (if docs = [] then (Inr (OkDeleted 0), w)
           else (case batchCommit e 1
                        (map (\<lambda>(i, t). UpdateToken i [Set_status expired, Set_expiredAt (now e)])
                           docs) w of
                   (Inl x, w') \<Rightarrow> (Inl x, w')
                 | (Inr u, w') \<Rightarrow> (Inr (OkDeleted (length docs)), w'))))"

definition cleanupExpiredTokensAction ::
    "Env \<Rightarrow> World \<Rightarrow> Result \<times> World" where
  "cleanupExpiredTokensAction e w =
     try_catch msg_cleanup (cleanupExpiredTokensAction_try e w)"

definition count_where :: "('a \<Rightarrow> bool) \<Rightarrow> 'a list \<Rightarrow> nat" where
  "count_where p xs = length (filter p xs)"

text \<open>\<^verbatim>\<open>reduce((sum, t) => sum + (t.amount || 0), 0)\<close>.\<close>

definition sum_amounts :: "UnifiedToken list \<Rightarrow> number" where
  "sum_amounts ts = fold (\<lambda>t s. fadd s (or_zero (amount t))) ts (Finite 0)"

definition getTokenStatisticsAction_try ::
    "Env \<Rightarrow> World \<Rightarrow> (exn + Result) \<times> World" where
  "getTokenStatisticsAction_try e w =
     (case getDocs e 0 (orderByName (unifiedTokens w)) of
        Inl x \<Rightarrow> (Inl x, w)
      | Inr docs \<Rightarrow>
          (let allTokens = map snd docs in
           (Inr (OkStats
              \<lparr>st_total = length allTokens,
               st_pending = count_where (\<lambda>t. status t = pending) allTokens,
               st_approved = count_where (\<lambda>t. status t = approved) allTokens,
               st_rejected = count_where (\<lambda>t. status t = rejected) allTokens,
               st_expired = count_where (\<lambda>t. status t = expired) allTokens,
               st_byType = (\<lambda>ty. count_where (\<lambda>t. tokenType t = ty) allTokens),
               st_pendingAmount = sum_amounts (filter (\<lambda>t. status t = pending) allTokens),
               st_approvedAmount = sum_amounts (filter (\<lambda>t. status t = approved) allTokens),
               st_rejectedAmount = sum_amounts (filter (\<lambda>t. status t = rejected) allTokens)\<rparr>),
            w)))"

definition getTokenStatisticsAction ::
    "Env \<Rightarrow> World \<Rightarrow> Result \<times> World" where
  "getTokenStatisticsAction e w =
     try_catch msg_statistics (getTokenStatisticsAction_try e w)"

text \<open>\<^verbatim>\<open>migrateTransactionToTokenAction\<close>: three requests, none of them in a transaction.
  The new token takes the status of the legacy document; \<^verbatim>\<open>approvedAt\<close> and \<^verbatim>\<open>approvedBy\<close>
  are \<^verbatim>\<open>undefined\<close> when the legacy document lacks them.\<close>

definition migrateTransactionToTokenAction_try ::
    "Env \<Rightarrow> string \<Rightarrow> string \<Rightarrow> World \<Rightarrow> (exn + Result) \<times> World" where
  "migrateTransactionToTokenAction_try e transactionId adminUserId w =
     (case getDoc e 0 (transactions w) transactionId of
        Inl x \<Rightarrow> (Inl x, w)
      | Inr None \<Rightarrow> (Inr (Failure msg_tx_not_found), w)
      | Inr (Some transactionData) \<Rightarrow>
          (let tokenData =
                 \<lparr>userId = tx_userId transactionData, tokenType = tx_type transactionData,
                  amount = tx_amount transactionData, status = tx_status transactionData,
                  metadata =
                    [(''migratedFrom'', MStr ''transaction''),
                     (''originalTransactionId'', MStr transactionId),
                     (''migratedBy'', MStr adminUserId),
                     (''originalData'', MDoc transactionData)],
                  createdAt =
                    (case tx_createdAt transactionData of None \<Rightarrow> now e | Some c \<Rightarrow> c),
                  expiresAt = None,
                  approvedAt = tx_approvedAt transactionData,
                  approvedBy = tx_approvedBy transactionData,
                  adminNotes = None, rejectedAt = None, rejectedBy = None,
                  rejectionReason = None, expiredAt = None, updatedAt = None\<rparr>
           in if (tx_approvedAt transactionData = None \<or> tx_approvedBy transactionData = None)
                 \<and> \<not> ignoreUndefinedProperties e
              then (Inl InvalidData, w)
              else (case addDoc e 1 tokenData w of
                      (Inl x, w1) \<Rightarrow> (Inl x, w1)
                    | (Inr tokenRef, w1) \<Rightarrow>
                        (case updateDoc e 2
                                (UpdateLegacy transactionId
                                   [Set_migratedToToken tokenRef, Set_migratedAt (now e),
                                    Set_migratedBy adminUserId]) w1 of
                           (Inl x, w2) \<Rightarrow> (Inl x, w2)
                         | (Inr u, w2) \<Rightarrow> (Inr (OkTokenId tokenRef), w2)))))"

definition migrateTransactionToTokenAction ::
    "Env \<Rightarrow> string \<Rightarrow> string \<Rightarrow> World \<Rightarrow> Result \<times> World" where
  "migrateTransactionToTokenAction e transactionId adminUserId w =
     try_catch msg_migration (migrateTransactionToTokenAction_try e transactionId adminUserId w)"

subsection \<open>The referral actions\<close>

text \<open>The literal \<^verbatim>\<open>0.05\<close> is the double nearest to 5/100.\<close>

definition commissionRate :: number where
  "commissionRate = round64 (5 / 100)"

definition referrerQuery :: "string \<Rightarrow> World \<Rightarrow> User collection" where
  "referrerQuery code w =
     take 1 (orderByName (whereDocs (\<lambda>u. referralCode u = Some code) (users w)))"

definition commissionToken :: "Env \<Rightarrow> string \<Rightarrow> string \<Rightarrow> number \<Rightarrow> UnifiedToken" where
  "commissionToken e referrerId uid depositAmount =
     \<lparr>userId = referrerId, tokenType = referral_commission,
      amount = fmul depositAmount commissionRate, status = pending,
      metadata =
        [(''referredUserId'', MStr uid), (''originalDepositAmount'', MNum depositAmount),
         (''commissionRate'', MNum commissionRate), (''source'', MStr ''deposit_referral'')],
      createdAt = now e, expiresAt = Some (now e + 30 * day_ms),
      approvedAt = None, approvedBy = None, adminNotes = None, rejectedAt = None,
      rejectedBy = None, rejectionReason = None, expiredAt = None, updatedAt = None\<rparr>"

text \<open>The callback of the transaction of \<^verbatim>\<open>processDepositReferralAction\<close>: the new token
  under a generated id, the statistics of the referrer, the back-reference of the user.\<close>

definition referral_writes ::
    "string list \<Rightarrow> Env \<Rightarrow> string \<Rightarrow> string \<Rightarrow> number \<Rightarrow> exn + Write list" where
  "referral_writes scope e referrerId uid depositAmount =
     (let commissionAmount = fmul depositAmount commissionRate in
      case increment scope commissionAmount of
        Inl x \<Rightarrow> Inl x
      | Inr inc \<Rightarrow>
          (case increment scope (Finite 1) of
             Inl x \<Rightarrow> Inl x
           | Inr one \<Rightarrow>
               Inr [SetToken (autoId e) (commissionToken e referrerId uid depositAmount),
                    UpdateUser referrerId
                      [Inc_totalCommissions inc, Inc_pendingCommissions inc,
                       Inc_totalReferrals one, Set_lastReferralDate (now e)],
                    UpdateUser uid
                      [Set_referredBy referrerId, Set_referralProcessedAt (now e)]]))"

text \<open>\<^verbatim>\<open>processDepositReferralAction\<close>. \<^verbatim>\<open>!referralCode\<close> holds for an absent code and for the
  empty string.\<close>

definition processDepositReferralAction_try ::
    "Env \<Rightarrow> string \<Rightarrow> number \<Rightarrow> string option \<Rightarrow> World \<Rightarrow> (exn + Result) \<times> World" where
  "processDepositReferralAction_try e uid depositAmount referralCode' w =
     (case referralCode' of
        None \<Rightarrow> (Inr Ok, w)
      | Some code \<Rightarrow>
          (if code = [] then (Inr Ok, w)
           else (case getDocs e 0 (referrerQuery code w) of
                   Inl x \<Rightarrow> (Inl x, w)
                 | Inr [] \<Rightarrow> (Inr (Failure msg_invalid_referral), w)
                 | Inr ((referrerId, referrerData) # rest) \<Rightarrow>
                     (case runTransaction e 1
                             (referral_writes referralActions_imports e referrerId uid
                                depositAmount) w of
                        (Inl x, w') \<Rightarrow> (Inl x, w')
                      | (Inr u, w') \<Rightarrow>
                          (Inr (OkCommission (fmul depositAmount commissionRate)), w')))))"

definition processDepositReferralAction ::
    "Env \<Rightarrow> string \<Rightarrow> number \<Rightarrow> string option \<Rightarrow> World \<Rightarrow> Result \<times> World" where
  "processDepositReferralAction e uid depositAmount referralCode' w =
     try_catch msg_referral (processDepositReferralAction_try e uid depositAmount referralCode' w)"

definition default_stats :: ReferralStats where
  "default_stats = \<lparr>totalReferrals = Some (Finite 0), totalCommissions = Some (Finite 0),
     pendingCommissions = Some (Finite 0), approvedCommissions = Some (Finite 0),
     lastReferralDate = None\<rparr>"

text \<open>\<^verbatim>\<open>getUserReferralStatsAction\<close> has its own \<^verbatim>\<open>catch\<close>, which returns \<^verbatim>\<open>null\<close>.\<close>

definition catch_null :: "(exn + Result) \<times> World \<Rightarrow> Result \<times> World" where
  "catch_null r = (case fst r of Inl x \<Rightarrow> Null | Inr v \<Rightarrow> v, snd r)"

definition getUserReferralStatsAction_try ::
    "Env \<Rightarrow> string \<Rightarrow> World \<Rightarrow> (exn + Result) \<times> World" where
  "getUserReferralStatsAction_try e uid w =
     (case getDoc e 0 (users w) uid of
        Inl x \<Rightarrow> (Inl x, w)
      | Inr None \<Rightarrow> (Inr Null, w)
      | Inr (Some userData) \<Rightarrow>
          (Inr (StatsValue
                  (case referralStats userData of None \<Rightarrow> default_stats | Some s \<Rightarrow> s)),
           w))"

definition getUserReferralStatsAction :: "Env \<Rightarrow> string \<Rightarrow> World \<Rightarrow> Result \<times> World" where
  "getUserReferralStatsAction e uid w = catch_null (getUserReferralStatsAction_try e uid w)"

definition getUserReferralCommissionTokensAction_try ::
    "Env \<Rightarrow> string \<Rightarrow> World \<Rightarrow> (exn + Result) \<times> World" where
  "getUserReferralCommissionTokensAction_try e uid w =
     (case getDocs e 0
             (take 50 (orderByDesc createdAt
                (whereDocs (\<lambda>t. tokenType t = referral_commission)
                   (whereDocs (\<lambda>t. userId t = uid) (unifiedTokens w))))) of
        Inl x \<Rightarrow> (Inl x, w)
      | Inr tokens \<Rightarrow> (Inr (OkTokens tokens), w))"

definition getUserReferralCommissionTokensAction ::
    "Env \<Rightarrow> string \<Rightarrow> World \<Rightarrow> Result \<times> World" where
  "getUserReferralCommissionTokensAction e uid w =
     try_catch msg_commission_tokens (getUserReferralCommissionTokensAction_try e uid w)"

definition commission_writes ::
    "string list \<Rightarrow> Env \<Rightarrow> string \<Rightarrow> string \<Rightarrow> UnifiedToken \<Rightarrow> exn + Write list" where
  "commission_writes scope e tokenId adminUserId tokenData =
     (case increment scope (amount tokenData) of
        Inl x \<Rightarrow> Inl x
      | Inr inc \<Rightarrow>
          (case increment scope (fneg (amount tokenData)) of
             Inl x \<Rightarrow> Inl x
           | Inr dec \<Rightarrow>
               Inr [UpdateToken tokenId
                      [Set_status approved, Set_approvedAt (now e), Set_approvedBy adminUserId],
                    UpdateUser (userId tokenData)
                      [Inc_balance inc, Inc_approvedCommissions inc,
                       Inc_pendingCommissions dec]]))"

definition approveReferralCommissionAction_try ::
    "Env \<Rightarrow> string \<Rightarrow> string \<Rightarrow> World \<Rightarrow> (exn + Result) \<times> World" where
  "approveReferralCommissionAction_try e tokenId adminUserId w =
     (case getDoc e 0 (unifiedTokens w) tokenId of
        Inl x \<Rightarrow> (Inl x, w)
      | Inr None \<Rightarrow> (Inr (Failure msg_token_not_found), w)
      | Inr (Some tokenData) \<Rightarrow>
          (if status tokenData \<noteq> pending then (Inr (Failure msg_already_processed), w)
           else (case runTransaction e 1
                        (commission_writes referralActions_imports e tokenId adminUserId
                           tokenData) w of
                   (Inl x, w') \<Rightarrow> (Inl x, w')
                 | (Inr u, w') \<Rightarrow> (Inr Ok, w'))))"

definition approveReferralCommissionAction ::
    "Env \<Rightarrow> string \<Rightarrow> string \<Rightarrow> World \<Rightarrow> Result \<times> World" where
  "approveReferralCommissionAction e tokenId adminUserId w =
     try_catch msg_approve_commission (approveReferralCommissionAction_try e tokenId adminUserId w)"

text \<open>\<^verbatim>\<open>getUserReferralChainAction\<close>: ordering by \<^verbatim>\<open>referralProcessedAt\<close> leaves out the
  documents without that field.\<close>

definition getUserReferralChainAction_try ::
    "Env \<Rightarrow> string \<Rightarrow> World \<Rightarrow> (exn + Result) \<times> World" where
  "getUserReferralChainAction_try e uid w =
     (case getDocs e 0
             (take 100 (orderByDesc referralProcessedAt
                (whereDocs (\<lambda>u. referralProcessedAt u \<noteq> None)
                   (whereDocs (\<lambda>u. referredBy u = Some uid) (users w))))) of
        Inl x \<Rightarrow> (Inl x, w)
      | Inr docs \<Rightarrow>
          (Inr (OkReferredUsers
             (map (\<lambda>(i, u).
                     \<lparr>ru_id = i, ru_email = email u, ru_displayName = displayName u,
                      ru_referralProcessedAt = referralProcessedAt u,
                      ru_totalDeposits =
                        (case totalDeposits u of None \<Rightarrow> Finite 0 | Some x \<Rightarrow> or_zero x)\<rparr>) docs)),
           w))"

definition getUserReferralChainAction ::
    "Env \<Rightarrow> string \<Rightarrow> World \<Rightarrow> Result \<times> World" where
  "getUserReferralChainAction e uid w =
     try_catch msg_chain (getUserReferralChainAction_try e uid w)"

text \<open>\<^verbatim>\<open>getPendingReferralCommissionsAction\<close>. The loop variable of
  \<^verbatim>\<open>for (const doc of pendingSnapshot.docs)\<close> shadows the imported function \<^verbatim>\<open>doc\<close>, so the
  call \<^verbatim>\<open>doc(db, 'users', ...)\<close> in the first iteration applies a document snapshot and
  throws a \<^verbatim>\<open>TypeError\<close>; the loop body completes for no document.\<close>

definition getPendingReferralCommissionsAction_try ::
    "Env \<Rightarrow> World \<Rightarrow> (exn + Result) \<times> World" where
  "getPendingReferralCommissionsAction_try e w =
     (case getDocs e 0
             (take 100 (orderByDesc createdAt
                (whereDocs (\<lambda>t. status t = pending)
                   (whereDocs (\<lambda>t. tokenType t = referral_commission) (unifiedTokens w))))) of
        Inl x \<Rightarrow> (Inl x, w)
      | Inr [] \<Rightarrow> (Inr (OkCommissions []), w)
      | Inr (d # ds) \<Rightarrow> (Inl (TypeError ''doc is not a function''), w))"

definition getPendingReferralCommissionsAction ::
    "Env \<Rightarrow> World \<Rightarrow> Result \<times> World" where
  "getPendingReferralCommissionsAction e w =
     try_catch msg_pending_commissions (getPendingReferralCommissionsAction_try e w)"

definition analyzeReferralPerformanceAction_try ::
    "Env \<Rightarrow> string \<Rightarrow> World \<Rightarrow> (exn + Result) \<times> World" where
  "analyzeReferralPerformanceAction_try e uid w =
     (case getDocs e 0
             (orderByAsc referralProcessedAt
                (whereDocs
                   (\<lambda>u. case referralProcessedAt u of
                           None \<Rightarrow> False | Some p \<Rightarrow> now e - 30 * day_ms \<le> p)
                   (whereDocs (\<lambda>u. referredBy u = Some uid) (users w)))) of
        Inl x \<Rightarrow> (Inl x, w)
      | Inr recent \<Rightarrow>
          (case getDocs e 1
                  (orderByName
                     (whereDocs (\<lambda>t. tokenType t = referral_commission)
                        (whereDocs (\<lambda>t. userId t = uid) (unifiedTokens w)))) of
             Inl x \<Rightarrow> (Inl x, w)
           | Inr commissions \<Rightarrow>
               (let total = length commissions;
                    amountSum = sum_amounts (map snd commissions);
                    approvedCount = count_where (\<lambda>(i, t). status t = approved) commissions
                in (Inr (OkAnalysis
                      \<lparr>recentReferrals = length recent,
                       totalCommissionTokens = total,
                       totalCommissionAmount = amountSum,
                       approvedCommissionCount = approvedCount,
                       approvalRate =
                         (if total > 0
                          then fmul (fdiv (of_count approvedCount) (of_count total))
                                 (Finite 100)
                          else Finite 0),
                       averageCommissionAmount =
                         (if total > 0 then fdiv amountSum (of_count total)
                          else Finite 0)\<rparr>),
                    w))))"

definition analyzeReferralPerformanceAction ::
    "Env \<Rightarrow> string \<Rightarrow> World \<Rightarrow> Result \<times> World" where
  "analyzeReferralPerformanceAction e uid w =
     try_catch msg_analysis (analyzeReferralPerformanceAction_try e uid w)"

subsection \<open>Every exported operation\<close>

datatype Call =
    CreateUnifiedToken string TokenType number "Metadata option" "int option"
  | UpdateUnifiedToken string "TokenField list"
  | GetUnifiedToken string
  | GetUserUnifiedTokens string "TokenType option" "TokenStatus option" "int option"
  | ApproveToken string string "string option"
  | RejectToken string string string
  | CleanupExpiredTokens
  | GetTokenStatistics
  | MigrateTransactionToToken string string
  | ProcessDepositReferral string number "string option"
  | GetUserReferralStats string
  | GetUserReferralCommissionTokens string
  | ApproveReferralCommission string string
  | GetUserReferralChain string
  | GetPendingReferralCommissions
  | AnalyzeReferralPerformance string

fun run :: "Env \<Rightarrow> Call \<Rightarrow> World \<Rightarrow> Result \<times> World" where
  "run e (CreateUnifiedToken uid ty amt md days) w = createUnifiedTokenAction e uid ty amt md days w"
| "run e (UpdateUnifiedToken tid updates) w = updateUnifiedTokenAction e tid updates w"
| "run e (GetUnifiedToken tid) w = getUnifiedTokenAction e tid w"
| "run e (GetUserUnifiedTokens uid ty st n) w = getUserUnifiedTokensAction e uid ty st n w"
| "run e (ApproveToken tid admin notes) w = approveTokenAction e tid admin notes w"
| "run e (RejectToken tid admin reason) w = rejectTokenAction e tid admin reason w"
| "run e CleanupExpiredTokens w = cleanupExpiredTokensAction e w"
| "run e GetTokenStatistics w = getTokenStatisticsAction e w"
| "run e (MigrateTransactionToToken xid admin) w = migrateTransactionToTokenAction e xid admin w"
| "run e (ProcessDepositReferral uid amt code) w = processDepositReferralAction e uid amt code w"
| "run e (GetUserReferralStats uid) w = getUserReferralStatsAction e uid w"
| "run e (GetUserReferralCommissionTokens uid) w = getUserReferralCommissionTokensAction e uid w"
| "run e (ApproveReferralCommission tid admin) w = approveReferralCommissionAction e tid admin w"
| "run e (GetUserReferralChain uid) w = getUserReferralChainAction e uid w"
| "run e GetPendingReferralCommissions w = getPendingReferralCommissionsAction e w"
| "run e (AnalyzeReferralPerformance uid) w = analyzeReferralPerformanceAction e uid w"


subsection \<open>Notions used in the statements\<close>

text \<open>The balance of a user and the status of a token, by document id; the fields that
  \<^verbatim>\<open>approveTokenAction\<close> writes to the token.\<close>

definition balance_of :: "World \<Rightarrow> string \<Rightarrow> number option option" where
  "balance_of w i = map_option balance (map_of (users w) i)"

definition status_of :: "World \<Rightarrow> string \<Rightarrow> TokenStatus option" where
  "status_of w i = map_option status (map_of (unifiedTokens w) i)"

definition approval_fields :: "Env \<Rightarrow> string \<Rightarrow> string option \<Rightarrow> TokenField list" where
  "approval_fields e admin notes =
     [Set_status approved, Set_approvedAt (now e), Set_approvedBy admin,
      Set_adminNotes (case notes of None \<Rightarrow> [] | Some s \<Rightarrow> s)]"


text \<open>A user document with the three fields written by the referral processing blanked.\<close>

definition outside_referral :: "User \<Rightarrow> User" where
  "outside_referral u = u\<lparr>referralStats := None, referredBy := None, referralProcessedAt := None\<rparr>"


text \<open>The three running sums of the referral statistics of a user (total, pending,
  approved) as the document holds them, and by document id. \<open>value_of\<close> reads a field as
  the rational it holds, an absent field as 0 (the sum of an absent field and \<open>n\<close> is
  \<open>n\<close>), and has no value for an infinity or NaN. \<open>stats_balanced\<close> is the invariant
  \<^verbatim>\<open>totalCommissions = pendingCommissions + approvedCommissions\<close> of these values.\<close>

definition commissions :: "User \<Rightarrow> number option \<times> number option \<times> number option" where
  "commissions u =
     (totalCommissions (stats_of u), pendingCommissions (stats_of u),
      approvedCommissions (stats_of u))"

definition commissions_of ::
    "World \<Rightarrow> string \<Rightarrow> (number option \<times> number option \<times> number option) option" where
  "commissions_of w i = map_option commissions (map_of (users w) i)"

definition value_of :: "number option \<Rightarrow> rat option" where
  "value_of v = (case v of None \<Rightarrow> Some 0 | Some (Finite q) \<Rightarrow> Some q | Some _ \<Rightarrow> None)"

definition stats_balanced :: "User \<Rightarrow> bool" where
  "stats_balanced u =
     (case (value_of (totalCommissions (stats_of u)), value_of (pendingCommissions (stats_of u)),
            value_of (approvedCommissions (stats_of u))) of
        (Some t, Some p, Some a) \<Rightarrow> t = p + a
      | _ \<Rightarrow> False)"

text \<open>\<open>exact_increment n v\<close>: adding \<open>n\<close> to the field \<open>v\<close> rounds nothing. \<open>exact_step c w\<close>:
  the additions that the call \<open>c\<close> makes to the running sums in the state \<open>w\<close> round
  nothing (a call of any other operation adds nothing to them).\<close>

definition exact_increment :: "number \<Rightarrow> number option \<Rightarrow> bool" where
  "exact_increment n v =
     (case (value_of v, value_of (Some n)) of
        (Some x, Some a) \<Rightarrow> value_of (incremented n v) = Some (x + a)
      | _ \<Rightarrow> False)"

definition exact_step :: "Call \<Rightarrow> World \<Rightarrow> bool" where
  "exact_step c w =
     (case c of
        ProcessDepositReferral uid amt code \<Rightarrow>
          (case code of
             None \<Rightarrow> True
           | Some cd \<Rightarrow>
               (case referrerQuery cd w of
                  [] \<Rightarrow> True
                | (ref, rd) # rest \<Rightarrow>
                    (case map_of (users w) ref of
                       None \<Rightarrow> True
                     | Some u \<Rightarrow>
                         exact_increment (fmul amt commissionRate)
                           (totalCommissions (stats_of u)) \<and>
                         exact_increment (fmul amt commissionRate)
                           (pendingCommissions (stats_of u)))))
      | ApproveReferralCommission tid admin \<Rightarrow>
          (case map_of (unifiedTokens w) tid of
             None \<Rightarrow> True
           | Some t \<Rightarrow>
               (case map_of (users w) (userId t) of
                  None \<Rightarrow> True
                | Some u \<Rightarrow>
                    exact_increment (amount t) (approvedCommissions (stats_of u)) \<and>
                    exact_increment (fneg (amount t)) (pendingCommissions (stats_of u))))
      | _ \<Rightarrow> True)"

definition all_users :: "(User \<Rightarrow> bool) \<Rightarrow> World \<Rightarrow> bool" where
  "all_users P w = list_all (\<lambda>(i, u). P u) (users w)"


text \<open>The environment \<open>e\<close> in which the request number \<open>k\<close> is rejected as well.\<close>

definition rejecting :: "nat \<Rightarrow> Env \<Rightarrow> Env" where
  "rejecting k e = e\<lparr>fault := (fault e)(k := True)\<rparr>"






text \<open>What the cleanup writes to a token.\<close>

definition mark_expired :: "int \<Rightarrow> UnifiedToken \<Rightarrow> UnifiedToken" where
  "mark_expired n t = t\<lparr>status := expired, expiredAt := Some n\<rparr>"


text \<open>The operations that read the status before they write it (all but the generic update
  and the rejection); the approvals of a given token; and the ways the status of the token
  \<open>i\<close> can differ after a call: approved by an approval of \<open>i\<close>, expired by the cleanup, or
  new under the generated id.\<close>

fun status_guarded :: "Call \<Rightarrow> bool" where
  "status_guarded (UpdateUnifiedToken tid updates) = False"
| "status_guarded (RejectToken tid admin reason) = False"
| "status_guarded c = True"

fun approval_of :: "string \<Rightarrow> Call \<Rightarrow> bool" where
  "approval_of i (ApproveToken tid admin n) = (tid = i)"
| "approval_of i (ApproveReferralCommission tid admin) = (tid = i)"
| "approval_of i c = False"

definition status_step :: "Env \<Rightarrow> Call \<Rightarrow> Result \<Rightarrow> World \<Rightarrow> World \<Rightarrow> string \<Rightarrow> bool" where
  "status_step e c r w w' i \<longleftrightarrow>
     status_of w' i = status_of w i \<or>
     (status_of w i = Some pending \<and> status_of w' i = Some approved \<and> r = Ok \<and> approval_of i c) \<or>
     (status_of w i = Some pending \<and> status_of w' i = Some expired \<and> c = CleanupExpiredTokens) \<or>
     (status_of w i = None \<and> i = autoId e)"


text \<open>The limit of \<^verbatim>\<open>getUserUnifiedTokensAction\<close> (its parameter \<^verbatim>\<open>limitCount = 50\<close>), and a
  list of tokens ordered by \<^verbatim>\<open>createdAt\<close>, newest first.\<close>

definition limit_of :: "int option \<Rightarrow> int" where
  "limit_of limitCount = (case limitCount of None \<Rightarrow> 50 | Some k \<Rightarrow> k)"

definition newest_first :: "UnifiedToken collection \<Rightarrow> bool" where
  "newest_first docs = sorted_wrt (\<lambda>a b. createdAt (snd b) \<le> createdAt (snd a)) docs"

subsection \<open>Example data\<close>

text \<open>Concrete environments and database states, used to instantiate the theorems.\<close>

definition e0 :: Env where
  "e0 = \<lparr>now = 1000, autoId = ''new'', fault = (\<lambda>k. False), ignoreUndefinedProperties = False\<rparr>"

definition alice :: User where
  "alice = \<lparr>balance = Some (Finite 50), typeTotal = (\<lambda>t. None), referralCode = Some ''ABC'',
     referredBy = None, referralProcessedAt = None, referralStats = None, email = None,
     displayName = None, totalDeposits = None\<rparr>"

definition bob :: User where
  "bob = \<lparr>balance = None, typeTotal = (\<lambda>t. None), referralCode = None,
     referredBy = None, referralProcessedAt = None, referralStats = None, email = None,
     displayName = None, totalDeposits = None\<rparr>"

definition token0 :: "string \<Rightarrow> TokenType \<Rightarrow> TokenStatus \<Rightarrow> int \<Rightarrow> UnifiedToken" where
  "token0 owner ty st created =
     \<lparr>userId = owner, tokenType = ty, amount = Finite 100, status = st, metadata = [],
      createdAt = created, expiresAt = Some 500,
      approvedAt = None, approvedBy = None, adminNotes = None, rejectedAt = None,
      rejectedBy = None, rejectionReason = None, expiredAt = None, updatedAt = None\<rparr>"

definition w_users :: World where
  "w_users = \<lparr>users = [(''alice'', alice), (''bob'', bob)], unifiedTokens = [], transactions = []\<rparr>"

definition w_alice :: World where
  "w_alice = \<lparr>users = [(''alice'', alice)], unifiedTokens = [], transactions = []\<rparr>"

definition w_deposit :: World where
  "w_deposit = \<lparr>users = [(''alice'', alice)],
     unifiedTokens = [(''t1'', token0 ''alice'' deposit pending 10)], transactions = []\<rparr>"

definition w_ledger :: World where
  "w_ledger = \<lparr>users = [(''alice'', alice), (''bob'', bob)],
     unifiedTokens =
       [(''t1'', token0 ''alice'' deposit pending 10),
        (''t2'', token0 ''alice'' deposit approved 20),
        (''t3'', token0 ''alice'' referral_commission pending 30),
        (''t4'', token0 ''bob'' raffle_entry pending 40)],
     transactions = []\<rparr>"

definition w_referred :: World where
  "w_referred = snd (run e0 (ProcessDepositReferral ''bob'' (Finite 200) (Some ''ABC'')) w_ledger)"

text \<open>A second call, with its own clock value and generated id; and the state after two
  deposits of 2 and of 3 were processed for the same referrer and the first commission was
  approved (the numbers are the doubles 0.25, 0.15 and 0.1 and the balance 50.1).\<close>

definition e1 :: Env where
  "e1 = \<lparr>now = 2000, autoId = ''new1'', fault = (\<lambda>k. False), ignoreUndefinedProperties = False\<rparr>"

definition w_rounding :: World where
  "w_rounding =
     \<lparr>users =
        [(''alice'', alice\<lparr>referralStats := Some
            \<lparr>totalReferrals = Some (Finite 2),
             totalCommissions = Some (Finite (1 / 4)),
             pendingCommissions = Some (Finite (5404319552844595 / 36028797018963968)),
             approvedCommissions = Some (Finite (3602879701896397 / 36028797018963968)),
             lastReferralDate = Some 2000\<rparr>,
            balance := Some (Finite (7050948166601933 / 140737488355328))\<rparr>),
         (''bob'', bob\<lparr>referredBy := Some ''alice'', referralProcessedAt := Some 2000\<rparr>)],
      unifiedTokens =
        [(''new'', (commissionToken e0 ''alice'' ''bob'' (Finite 2))
            \<lparr>status := approved, approvedAt := Some 1000, approvedBy := Some ''admin''\<rparr>),
         (''new1'', commissionToken e1 ''alice'' ''bob'' (Finite 3))],
      transactions = []\<rparr>"




section \<open>Proofs\<close>

subsection \<open>Rounding of concrete values\<close>

lemma bits_0 [simp]: "bits 0 = 0"
  by (simp add: bits.simps)

lemma bits_1 [simp]: "bits (Suc 0) = Suc 0"
  by (simp add: bits.simps)

lemma bits_numeral [simp]: "bits (numeral k) = Suc (bits (numeral k div 2))"
  by (subst bits.simps) simp

lemma floor_quotient [simp]:
  "\<lfloor>(numeral a :: rat) / numeral b\<rfloor> = numeral a div numeral b"
  using floor_divide_of_int_eq [of "numeral a" "numeral b", where ?'a = rat] by simp

lemma floor_minus_quotient [simp]:
  "\<lfloor>- ((numeral a :: rat) / numeral b)\<rfloor> = - numeral a div numeral b"
  using floor_divide_of_int_eq [of "- numeral a" "numeral b", where ?'a = rat] by simp

lemmas round64_eval = round64_def binade_def round_half_even_def pow2_def Let_def

lemma commissionRate_value:
  "commissionRate = Finite (3602879701896397 / 72057594037927936)"
  by (simp add: commissionRate_def round64_eval)

lemma round64_0 [simp]: "round64 0 = Finite 0"
  by (simp add: round64_def)

lemma fadd_Finite [simp]: "fadd (Finite a) (Finite b) = round64 (a + b)"
  by (simp add: fadd_def)

lemma fmul_Finite [simp]: "fmul (Finite a) (Finite b) = round64 (a * b)"
  by (simp add: fmul_def)

lemma fneg_Finite [simp]: "fneg (Finite a) = Finite (- a)"
  by (simp add: fneg_def)

lemma five_percent_of_100: "fmul (Finite 100) commissionRate = Finite 5"
  by (simp add: commissionRate_value round64_eval)

lemma five_percent_of_200: "fmul (Finite 200) commissionRate = Finite 10"
  by (simp add: commissionRate_value round64_eval)

lemma round64_150: "round64 150 = Finite 150"
  by (simp add: round64_eval)

text \<open>The amounts of the examples are doubles.\<close>

lemma example_amounts_are_doubles:
  "is_double (Finite 2) \<and> is_double (Finite 3) \<and> is_double (Finite 5) \<and>
   is_double (Finite 50) \<and> is_double (Finite 100) \<and> is_double (Finite 200) \<and>
   is_double commissionRate"
  by (simp add: is_double_def commissionRate_value round64_eval)

subsection \<open>An action is its try block under its catch\<close>

lemmas createUnifiedTokenAction_unfold =
  createUnifiedTokenAction_def createUnifiedTokenAction_try_def

lemmas updateUnifiedTokenAction_unfold =
  updateUnifiedTokenAction_def updateUnifiedTokenAction_try_def

lemmas getUnifiedTokenAction_unfold = getUnifiedTokenAction_def getUnifiedTokenAction_try_def

lemmas getUserUnifiedTokensAction_unfold =
  getUserUnifiedTokensAction_def getUserUnifiedTokensAction_try_def

lemmas approveTokenAction_in_unfold = approveTokenAction_in_def approveTokenAction_try_def

lemmas rejectTokenAction_unfold = rejectTokenAction_def rejectTokenAction_try_def

lemmas cleanupExpiredTokensAction_unfold =
  cleanupExpiredTokensAction_def cleanupExpiredTokensAction_try_def

lemmas getTokenStatisticsAction_unfold =
  getTokenStatisticsAction_def getTokenStatisticsAction_try_def

lemmas migrateTransactionToTokenAction_unfold =
  migrateTransactionToTokenAction_def migrateTransactionToTokenAction_try_def

lemmas processDepositReferralAction_unfold =
  processDepositReferralAction_def processDepositReferralAction_try_def

lemmas getUserReferralStatsAction_unfold = getUserReferralStatsAction_def
  getUserReferralStatsAction_try_def catch_null_def

lemmas getUserReferralCommissionTokensAction_unfold =
  getUserReferralCommissionTokensAction_def getUserReferralCommissionTokensAction_try_def

lemmas approveReferralCommissionAction_unfold =
  approveReferralCommissionAction_def approveReferralCommissionAction_try_def

lemmas getUserReferralChainAction_unfold =
  getUserReferralChainAction_def getUserReferralChainAction_try_def

lemmas getPendingReferralCommissionsAction_unfold =
  getPendingReferralCommissionsAction_def getPendingReferralCommissionsAction_try_def

lemmas analyzeReferralPerformanceAction_unfold =
  analyzeReferralPerformanceAction_def analyzeReferralPerformanceAction_try_def

subsection \<open>Basic facts about the database model\<close>

lemmas example_defs = e0_def alice_def bob_def token0_def w_users_def w_alice_def w_deposit_def
  w_ledger_def

lemmas request_defs = getDoc_def getDocs_def addDoc_def updateDoc_def runTransaction_def
  batchCommit_def updateIn_def

lemmas query_defs = whereDocs_def orderByName_def orderByAsc_def orderByDesc_def limitDocs_def

lemma try_catch_snd [simp]: "snd (try_catch m r) = snd r"
  by (simp add: try_catch_def)

lemma try_catch_Inl [simp]: "try_catch m (Inl x, w) = (Failure m, w)"
  by (simp add: try_catch_def)

lemma try_catch_Inr [simp]: "try_catch m (Inr v, w) = (v, w)"
  by (simp add: try_catch_def)

lemma update_fresh: "k \<notin> fst ` set al \<Longrightarrow> AList.update k v al = al @ [(k, v)]"
  by (induction al) auto

lemma map_of_eq_None_keys: "map_of c i = None \<longleftrightarrow> i \<notin> fst ` set c"
  by (simp add: map_of_eq_None_iff)

lemma map_of_Some_key: "map_of c i = Some d \<Longrightarrow> i \<in> fst ` set c"
  by (force dest: map_of_SomeD)

lemma key_exists: "i \<in> fst ` set c \<Longrightarrow> \<exists>d. map_of c i = Some d"
  by (cases "map_of c i") (auto simp: map_of_eq_None_keys)

lemma updateIn_Inr:
  "updateIn i f c = Inr c' \<longleftrightarrow> (\<exists>d. map_of c i = Some d \<and> c' = AList.update i (f d) c)"
  by (auto simp: updateIn_def split: option.splits)

lemma updateIn_Inl:
  "updateIn i f c = Inl x \<longleftrightarrow> x = NotFound \<and> i \<notin> fst ` set c"
  by (auto simp: updateIn_def map_of_eq_None_keys split: option.splits dest: map_of_Some_key)

lemma updateIn_keys: "updateIn i f c = Inr c' \<Longrightarrow> map fst c' = map fst c"
  by (auto simp: updateIn_Inr update_keys dest: map_of_Some_key)

lemma whereDocs_empty: "whereDocs p c = [] \<longleftrightarrow> (\<forall>(i, d) \<in> set c. \<not> p d)"
  by (auto simp: whereDocs_def filter_empty_conv)

lemma whereDocs_subset: "set (whereDocs p c) \<subseteq> set c"
  by (auto simp: whereDocs_def)

lemma runTransaction_cases:
  "runTransaction e k body w = (r, w') \<Longrightarrow>
     (w' = w \<and> (\<exists>x. r = Inl x)) \<or>
     (r = Inr () \<and> \<not> fault e k \<and> (\<exists>ws. body = Inr ws \<and> commit ws w = Inr w'))"
  by (auto simp: runTransaction_def split: sum.splits if_splits)

lemma increment_imported [simp]: "increment referralActions_imports n = Inr n"
  by (simp add: increment_def referralActions_imports_def)

lemma increment_not_imported [simp]:
  "increment unifiedTokenActions_imports n = Inl (ReferenceError ''increment'')"
  by (simp add: increment_def unifiedTokenActions_imports_def)

lemmas action_defs = approveTokenAction_def approveTokenAction_in_unfold approve_writes_def
  approveReferralCommissionAction_unfold commission_writes_def processDepositReferralAction_unfold
  referrerQuery_def referral_writes_def commissionToken_def

subsection \<open>Writes and commits\<close>

lemma apply_write_SetToken:
  "apply_write (SetToken i t) w = Inr w' \<longleftrightarrow>
     w' = w\<lparr>unifiedTokens := AList.update i t (unifiedTokens w)\<rparr>"
  by auto

lemma apply_write_UpdateToken:
  "apply_write (UpdateToken i fs) w = Inr w' \<longleftrightarrow>
     (\<exists>d. map_of (unifiedTokens w) i = Some d \<and>
          w' = w\<lparr>unifiedTokens := AList.update i (fold setTokenField fs d) (unifiedTokens w)\<rparr>)"
  by (auto simp: updateIn_def split: option.splits)

lemma apply_write_UpdateUser:
  "apply_write (UpdateUser i fs) w = Inr w' \<longleftrightarrow>
     (\<exists>d. map_of (users w) i = Some d \<and>
          w' = w\<lparr>users := AList.update i (fold setUserField fs d) (users w)\<rparr>)"
  by (auto simp: updateIn_def split: option.splits)

lemma apply_write_UpdateLegacy:
  "apply_write (UpdateLegacy i fs) w = Inr w' \<longleftrightarrow>
     (\<exists>d. map_of (transactions w) i = Some d \<and>
          w' = w\<lparr>transactions := AList.update i (fold setLegacyField fs d) (transactions w)\<rparr>)"
  by (auto simp: updateIn_def split: option.splits)

lemmas apply_write_Inr =
  apply_write_SetToken apply_write_UpdateToken apply_write_UpdateUser apply_write_UpdateLegacy

lemma commit_Cons_Inr:
  "commit (x # xs) w = Inr w' \<longleftrightarrow> (\<exists>w1. apply_write x w = Inr w1 \<and> commit xs w1 = Inr w')"
  by (auto split: sum.splits)

lemma commit_Nil_Inr: "commit [] w = Inr w' \<longleftrightarrow> w' = w"
  by auto

subsection \<open>The two approvals\<close>

lemma approve_writes_Inr:
  assumes "approve_writes scope e tid admin notes t = Inr ws"
  shows "ws = [UpdateToken tid (approval_fields e admin notes)] \<and> tokenType t = raffle_entry \<or>
         (\<exists>x ty y. ws = [UpdateToken tid (approval_fields e admin notes),
                          UpdateUser (userId t) [Inc_balance x, Inc_typeTotal ty y]])"
proof (cases "''increment'' \<in> set scope")
  case True
  then have "\<And>n. increment scope n = Inr n"
    by (simp add: increment_def)
  with assms show ?thesis
    by (cases "tokenType t") (auto simp: approve_writes_def Let_def approval_fields_def)
next
  case False
  then have "\<And>n. increment scope n = Inl (ReferenceError ''increment'')"
    by (simp add: increment_def)
  with assms show ?thesis
    by (cases "tokenType t") (simp_all add: approve_writes_def Let_def approval_fields_def)
qed

lemma status_approval_fields [simp]:
  "status (fold setTokenField (approval_fields e admin notes) t) = approved"
  by (simp add: approval_fields_def)

lemma approveTokenAction_in_effect:
  assumes "approveTokenAction_in scope e tid admin notes w = (r, w')"
  shows "(w' = w \<and> (\<exists>m. r = Failure m)) \<or>
         (r = Ok \<and> (\<exists>t ws. map_of (unifiedTokens w) tid = Some t \<and> status t = pending \<and>
             approve_writes scope e tid admin notes t = Inr ws \<and> commit ws w = Inr w'))"
proof (cases "getDoc e 0 (unifiedTokens w) tid")
  case (Inl x)
  with assms show ?thesis
    by (auto simp: approveTokenAction_in_unfold)
next
  case (Inr d)
  show ?thesis
  proof (cases d)
    case None
    with Inr assms show ?thesis
      by (auto simp: approveTokenAction_in_unfold)
  next
    case (Some t)
    then have t: "map_of (unifiedTokens w) tid = Some t"
      using Inr by (auto simp: getDoc_def split: if_splits)
    show ?thesis
    proof (cases "status t = pending")
      case False
      with Inr Some assms show ?thesis
        by (auto simp: approveTokenAction_in_unfold)
    next
      case True
      obtain res w1 where rt:
          "runTransaction e 1 (approve_writes scope e tid admin notes t) w = (res, w1)"
        by (cases "runTransaction e 1 (approve_writes scope e tid admin notes t) w")
      from runTransaction_cases [OF rt] Inr Some True assms rt t show ?thesis
        by (auto simp: approveTokenAction_in_unfold)
    qed
  qed
qed

lemma approveReferralCommissionAction_effect:
  assumes "approveReferralCommissionAction e tid admin w = (r, w')"
  shows "(w' = w \<and> (\<exists>m. r = Failure m)) \<or>
         (r = Ok \<and> (\<exists>t. map_of (unifiedTokens w) tid = Some t \<and> status t = pending \<and>
             commit [UpdateToken tid
                       [Set_status approved, Set_approvedAt (now e), Set_approvedBy admin],
                     UpdateUser (userId t)
                       [Inc_balance (amount t), Inc_approvedCommissions (amount t),
                        Inc_pendingCommissions (fneg (amount t))]] w = Inr w'))"
proof (cases "getDoc e 0 (unifiedTokens w) tid")
  case (Inl x)
  with assms show ?thesis
    by (auto simp: approveReferralCommissionAction_unfold)
next
  case (Inr d)
  show ?thesis
  proof (cases d)
    case None
    with Inr assms show ?thesis
      by (auto simp: approveReferralCommissionAction_unfold)
  next
    case (Some t)
    then have t: "map_of (unifiedTokens w) tid = Some t"
      using Inr by (auto simp: getDoc_def split: if_splits)
    show ?thesis
    proof (cases "status t = pending")
      case False
      with Inr Some assms show ?thesis
        by (auto simp: approveReferralCommissionAction_unfold)
    next
      case True
      obtain res w1 where rt:
          "runTransaction e 1 (commission_writes referralActions_imports e tid admin t) w
             = (res, w1)"
        by (cases "runTransaction e 1 (commission_writes referralActions_imports e tid admin t) w")
      from runTransaction_cases [OF rt] Inr Some True assms rt t show ?thesis
        by (auto simp: approveReferralCommissionAction_unfold commission_writes_def)
    qed
  qed
qed

lemma commit_approval_token:
  assumes "commit (UpdateToken tid fs # UpdateUser u gs # []) w = Inr w'"
  shows "\<exists>t d. map_of (unifiedTokens w) tid = Some t \<and> map_of (users w) u = Some d \<and>
           w' = w\<lparr>unifiedTokens := AList.update tid (fold setTokenField fs t) (unifiedTokens w),
                  users := AList.update u (fold setUserField gs d) (users w)\<rparr>"
  using assms by (auto simp: commit_Cons_Inr apply_write_Inr simp del: commit.simps(2) apply_write.simps)

lemma commit_single_token:
  assumes "commit [UpdateToken tid fs] w = Inr w'"
  shows "\<exists>t. map_of (unifiedTokens w) tid = Some t \<and>
           w' = w\<lparr>unifiedTokens := AList.update tid (fold setTokenField fs t) (unifiedTokens w)\<rparr>"
  using assms by (auto simp: commit_Cons_Inr apply_write_Inr simp del: commit.simps(2) apply_write.simps)

lemma approveTokenAction_in_Ok:
  assumes "approveTokenAction_in scope e tid admin notes w = (r, w')" and "w' \<noteq> w \<or> r = Ok"
  shows "r = Ok \<and> (\<exists>t t'. map_of (unifiedTokens w) tid = Some t \<and> status t = pending \<and>
           map_of (unifiedTokens w') tid = Some t' \<and> status t' = approved \<and>
           (\<forall>j. j \<noteq> userId t \<longrightarrow> map_of (users w') j = map_of (users w) j))"
proof -
  from approveTokenAction_in_effect [OF assms(1)] assms(2) obtain t ws where
      r: "r = Ok" and t: "map_of (unifiedTokens w) tid = Some t" "status t = pending"
      and ws: "approve_writes scope e tid admin notes t = Inr ws" and c: "commit ws w = Inr w'"
    by auto
  from approve_writes_Inr [OF ws] show ?thesis
  proof (elim disjE conjE exE)
    assume "ws = [UpdateToken tid (approval_fields e admin notes)]"
    with c have "commit [UpdateToken tid (approval_fields e admin notes)] w = Inr w'"
      by (simp only:)
    from commit_single_token [OF this] r t show ?thesis
      by (auto simp: update_conv')
  next
    fix x ty y
    assume "ws = [UpdateToken tid (approval_fields e admin notes),
                  UpdateUser (userId t) [Inc_balance x, Inc_typeTotal ty y]]"
    with c have "commit [UpdateToken tid (approval_fields e admin notes),
                  UpdateUser (userId t) [Inc_balance x, Inc_typeTotal ty y]] w = Inr w'"
      by (simp only:)
    from commit_approval_token [OF this] r t show ?thesis
      by (auto simp: update_conv')
  qed
qed

lemma approveReferralCommissionAction_Ok:
  assumes "approveReferralCommissionAction e tid admin w = (r, w')" and "w' \<noteq> w \<or> r = Ok"
  shows "r = Ok \<and> (\<exists>t t'. map_of (unifiedTokens w) tid = Some t \<and> status t = pending \<and>
           map_of (unifiedTokens w') tid = Some t' \<and> status t' = approved \<and>
           (\<forall>j. j \<noteq> userId t \<longrightarrow> map_of (users w') j = map_of (users w) j))"
proof -
  from approveReferralCommissionAction_effect [OF assms(1)] assms(2) obtain t where
      r: "r = Ok" and t: "map_of (unifiedTokens w) tid = Some t" "status t = pending"
      and c: "commit [UpdateToken tid
                       [Set_status approved, Set_approvedAt (now e), Set_approvedBy admin],
                     UpdateUser (userId t)
                       [Inc_balance (amount t), Inc_approvedCommissions (amount t),
                        Inc_pendingCommissions (fneg (amount t))]] w = Inr w'"
    by auto
  from commit_approval_token [OF c] r t show ?thesis
    by (auto simp: update_conv')
qed






subsection \<open>Referral processing\<close>

lemma processDeposit_effect:
  assumes "processDepositReferralAction e uid amt rc w = (r, w')"
  shows "w' = w \<or>
     (\<exists>c ref rd. rc = Some c \<and> c \<noteq> [] \<and> referrerQuery c w = [(ref, rd)] \<and>
        r = OkCommission (fmul amt commissionRate) \<and>
        commit [SetToken (autoId e) (commissionToken e ref uid amt),
                UpdateUser ref
                  [Inc_totalCommissions (fmul amt commissionRate),
                   Inc_pendingCommissions (fmul amt commissionRate),
                   Inc_totalReferrals (Finite 1), Set_lastReferralDate (now e)],
                UpdateUser uid [Set_referredBy ref, Set_referralProcessedAt (now e)]] w
          = Inr w')"
proof (cases "w' = w")
  case True
  then show ?thesis by simp
next
  case False
  with assms obtain c where rc: "rc = Some c" and c: "c \<noteq> []"
    by (cases rc) (auto simp: processDepositReferralAction_unfold split: if_splits)
  from False assms rc c have nf: "\<not> fault e 0"
    by (auto simp: processDepositReferralAction_unfold getDocs_def split: if_splits)
  have len: "length (referrerQuery c w) \<le> 1"
    by (simp add: referrerQuery_def)
  from False assms rc c nf obtain ref rd where q: "referrerQuery c w = [(ref, rd)]"
    using len by (cases "referrerQuery c w")
      (auto simp: processDepositReferralAction_unfold getDocs_def)
  obtain res w1 where rt:
      "runTransaction e 1 (referral_writes referralActions_imports e ref uid amt) w = (res, w1)"
    by (cases "runTransaction e 1 (referral_writes referralActions_imports e ref uid amt) w")
  from runTransaction_cases [OF rt] False assms rc c nf q rt
  have "r = OkCommission (fmul amt commissionRate) \<and>
        commit [SetToken (autoId e) (commissionToken e ref uid amt),
                UpdateUser ref
                  [Inc_totalCommissions (fmul amt commissionRate),
                   Inc_pendingCommissions (fmul amt commissionRate),
                   Inc_totalReferrals (Finite 1), Set_lastReferralDate (now e)],
                UpdateUser uid [Set_referredBy ref, Set_referralProcessedAt (now e)]] w
          = Inr w'"
    by (auto simp: processDepositReferralAction_unfold getDocs_def referral_writes_def Let_def
        increment_def referralActions_imports_def simp del: commit.simps)
  with rc c q show ?thesis
    by blast
qed

lemma commit_referral:
  assumes "commit [SetToken a t, UpdateUser ref fs, UpdateUser uid gs] w = Inr w'"
  shows "\<exists>d d'. map_of (users w) ref = Some d \<and>
           map_of (AList.update ref (fold setUserField fs d) (users w)) uid = Some d' \<and>
           w' = w\<lparr>unifiedTokens := AList.update a t (unifiedTokens w),
                  users := AList.update uid (fold setUserField gs d')
                             (AList.update ref (fold setUserField fs d) (users w))\<rparr>"
  using assms
  by (auto simp: commit_Cons_Inr apply_write_Inr simp del: commit.simps(2) apply_write.simps)

subsection \<open>Which calls write to the users\<close>

lemma commit_token_updates_frame:
  "commit (map (\<lambda>(i, t). UpdateToken i fs) docs) w = Inr w' \<Longrightarrow>
     users w' = users w \<and> transactions w' = transactions w"
proof (induction docs arbitrary: w)
  case Nil
  then show ?case by simp
next
  case (Cons d docs)
  obtain i t where d: "d = (i, t)" by (cases d)
  from Cons.prems obtain w1 where
      a: "apply_write (UpdateToken i fs) w = Inr w1"
      and c: "commit (map (\<lambda>(i, t). UpdateToken i fs) docs) w1 = Inr w'"
    by (auto simp: d commit_Cons_Inr simp del: commit.simps(2) apply_write.simps)
  from a have "users w1 = users w \<and> transactions w1 = transactions w"
    by (auto simp: apply_write_Inr simp del: apply_write.simps)
  with Cons.IH [OF c] show ?case by simp
qed

lemma run_users:
  assumes "run e c w = (r, w')"
  shows "users w' = users w \<or> (\<exists>tid a n. c = ApproveToken tid a n) \<or>
     (\<exists>tid a. c = ApproveReferralCommission tid a) \<or>
     (\<exists>u amt code. c = ProcessDepositReferral u amt code)"
proof (cases c)
  case (CreateUnifiedToken uid ty amt md days)
  with assms show ?thesis
    by (auto simp: createUnifiedTokenAction_unfold addDoc_def Let_def split: if_splits)
next
  case (UpdateUnifiedToken tid fs)
  with assms show ?thesis
    by (auto simp: updateUnifiedTokenAction_unfold updateDoc_def updateIn_def
        split: if_splits option.splits)
next
  case (GetUnifiedToken tid)
  with assms show ?thesis
    by (auto simp: getUnifiedTokenAction_unfold getDoc_def split: if_splits option.splits)
next
  case (GetUserUnifiedTokens uid ty st n)
  with assms have "w' = w"
    by (auto simp: getUserUnifiedTokensAction_unfold Let_def split: sum.splits)
  then show ?thesis by simp
next
  case (RejectToken tid a reason)
  with assms show ?thesis
    by (auto simp: rejectTokenAction_unfold updateDoc_def updateIn_def
        split: if_splits option.splits)
next
  case CleanupExpiredTokens
  with assms show ?thesis
    by (auto simp: cleanupExpiredTokensAction_unfold getDocs_def batchCommit_def
        split: if_splits sum.splits dest: commit_token_updates_frame)
next
  case GetTokenStatistics
  with assms show ?thesis
    by (auto simp: getTokenStatisticsAction_unfold getDocs_def Let_def split: if_splits)
next
  case (MigrateTransactionToToken xid a)
  with assms show ?thesis
    by (auto simp: migrateTransactionToTokenAction_unfold getDoc_def addDoc_def updateDoc_def
        updateIn_def Let_def split: if_splits option.splits)
next
  case (GetUserReferralStats uid)
  with assms show ?thesis
    by (auto simp: getUserReferralStatsAction_unfold getDoc_def split: if_splits option.splits)
next
  case (GetUserReferralCommissionTokens uid)
  with assms show ?thesis
    by (auto simp: getUserReferralCommissionTokensAction_unfold getDocs_def split: if_splits)
next
  case (GetUserReferralChain uid)
  with assms show ?thesis
    by (auto simp: getUserReferralChainAction_unfold getDocs_def split: if_splits)
next
  case GetPendingReferralCommissions
  with assms show ?thesis
    by (auto simp: getPendingReferralCommissionsAction_unfold getDocs_def
        split: if_splits list.splits)
next
  case (AnalyzeReferralPerformance uid)
  with assms show ?thesis
    by (auto simp: analyzeReferralPerformanceAction_unfold getDocs_def Let_def split: if_splits)
qed auto

lemma balance_fold_referrer [simp]:
  "balance (fold setUserField
      [Inc_totalCommissions a, Inc_pendingCommissions b, Inc_totalReferrals c,
       Set_lastReferralDate n] d) = balance d"
  by simp

lemma outside_referral_fold_referrer [simp]:
  "outside_referral (fold setUserField
      [Inc_totalCommissions a, Inc_pendingCommissions b, Inc_totalReferrals c,
       Set_lastReferralDate n] d) = outside_referral d"
  by (simp add: outside_referral_def)

lemma outside_referral_fold_depositor [simp]:
  "outside_referral (fold setUserField [Set_referredBy x, Set_referralProcessedAt n] d)
     = outside_referral d"
  by (simp add: outside_referral_def)

lemma balance_outside_referral: "balance (outside_referral u) = balance u"
  by (simp add: outside_referral_def)

lemma map_option_two_updates:
  assumes "map_of c ref = Some d" and "map_of (AList.update ref d1 c) uid = Some d'"
    and "g d1 = g d" and "g d2 = g d'"
  shows "map_option g (map_of (AList.update uid d2 (AList.update ref d1 c)) j)
           = map_option g (map_of c j)"
  using assms by (auto simp: update_conv' split: if_splits)

lemma processDeposit_outside_referral:
  assumes "processDepositReferralAction e uid amt rc w = (r, w')"
  shows "map_option outside_referral (map_of (users w') j)
           = map_option outside_referral (map_of (users w) j)"
proof -
  from processDeposit_effect [OF assms] show ?thesis
  proof (elim disjE exE conjE)
    assume "w' = w"
    then show ?thesis by simp
  next
    fix c ref rd
    assume "commit [SetToken (autoId e) (commissionToken e ref uid amt),
                UpdateUser ref
                  [Inc_totalCommissions (fmul amt commissionRate),
                   Inc_pendingCommissions (fmul amt commissionRate),
                   Inc_totalReferrals (Finite 1), Set_lastReferralDate (now e)],
                UpdateUser uid [Set_referredBy ref, Set_referralProcessedAt (now e)]] w
          = Inr w'"
    from commit_referral [OF this] obtain d d' where
        d: "map_of (users w) ref = Some d"
        and d': "map_of (AList.update ref (fold setUserField
              [Inc_totalCommissions (fmul amt commissionRate),
               Inc_pendingCommissions (fmul amt commissionRate),
               Inc_totalReferrals (Finite 1), Set_lastReferralDate (now e)] d) (users w)) uid = Some d'"
        and w': "users w' = AList.update uid
              (fold setUserField [Set_referredBy ref, Set_referralProcessedAt (now e)] d')
              (AList.update ref (fold setUserField
                [Inc_totalCommissions (fmul amt commissionRate),
                 Inc_pendingCommissions (fmul amt commissionRate),
                 Inc_totalReferrals (Finite 1), Set_lastReferralDate (now e)] d) (users w))"
      by auto
    show ?thesis
      unfolding w'
      by (rule map_option_two_updates [OF d d'])
         (rule outside_referral_fold_referrer, rule outside_referral_fold_depositor)
  qed
qed

subsection \<open>Referral statistics\<close>

lemma commissions_referrer:
  "commissions (fold setUserField
      [Inc_totalCommissions a, Inc_pendingCommissions a, Inc_totalReferrals k,
       Set_lastReferralDate n] d)
   = (case commissions d of (t, p, ap) \<Rightarrow> (incremented a t, incremented a p, ap))"
  by (simp add: commissions_def stats_of_def)

lemma commissions_depositor:
  "commissions (fold setUserField [Set_referredBy x, Set_referralProcessedAt n] d)
   = commissions d"
  by (simp add: commissions_def stats_of_def)

lemma commissions_approval:
  "commissions (fold setUserField
      [Inc_balance a, Inc_approvedCommissions a, Inc_pendingCommissions b] d)
   = (case commissions d of (t, p, ap) \<Rightarrow> (t, incremented b p, incremented a ap))"
  by (simp add: commissions_def stats_of_def)

lemma referralStats_token_approval:
  "referralStats (fold setUserField [Inc_balance x, Inc_typeTotal ty y] d) = referralStats d"
  by simp

lemma set_update_subset: "set (AList.update k v al) \<subseteq> insert (k, v) (set al)"
  by (induction al) auto

lemma list_all_update:
  assumes "list_all (\<lambda>(i, u). P u) c" and "P v"
  shows "list_all (\<lambda>(i, u). P u) (AList.update k v c)"
  using assms set_update_subset [of k v c] by (auto simp: list_all_iff)

lemma map_of_list_all:
  "list_all (\<lambda>(i, u). P u) c \<Longrightarrow> map_of c i = Some d \<Longrightarrow> P d"
  by (auto simp: list_all_iff dest: map_of_SomeD)

lemma lookup_one_update:
  assumes "map_of c k = Some d"
  shows "map_option g (map_of (AList.update k v c) j)
           = (if j = k then Some (g v) else map_option g (map_of c j))"
  by (simp add: update_conv')

lemma lookup_two_updates:
  assumes "map_of c ref = Some d" and "map_of (AList.update ref d1 c) uid = Some d'"
    and "g d2 = g d'"
  shows "map_option g (map_of (AList.update uid d2 (AList.update ref d1 c)) j)
           = (if j = ref then Some (g d1) else map_option g (map_of c j))"
  using assms by (auto simp: update_conv' split: if_splits)

lemma run_referralStats:
  assumes "run e c w = (r, w')"
    and "\<forall>uid amt code. c \<noteq> ProcessDepositReferral uid amt code"
    and "\<forall>tid a. c \<noteq> ApproveReferralCommission tid a"
  shows "map_option referralStats (map_of (users w') j)
           = map_option referralStats (map_of (users w) j)"
proof -
  from run_users [OF assms(1)] assms(2,3) consider
      "users w' = users w" | tid a n where "c = ApproveToken tid a n"
    by blast
  then show ?thesis
  proof cases
    case 1
    then show ?thesis by simp
  next
    case 2
    with assms(1) have a:
        "approveTokenAction_in unifiedTokenActions_imports e tid a n w = (r, w')"
      by (simp add: approveTokenAction_def)
    from approveTokenAction_in_effect [OF a] show ?thesis
    proof (elim disjE conjE exE)
      fix t ws
      assume ws: "approve_writes unifiedTokenActions_imports e tid a n t = Inr ws"
        and c: "commit ws w = Inr w'"
      from approve_writes_Inr [OF ws] show ?thesis
      proof (elim disjE conjE exE)
        assume "ws = [UpdateToken tid (approval_fields e a n)]"
        with c have "commit [UpdateToken tid (approval_fields e a n)] w = Inr w'"
          by (simp only:)
        from commit_single_token [OF this] show ?thesis
          by auto
      next
        fix x ty y
        assume "ws = [UpdateToken tid (approval_fields e a n),
                      UpdateUser (userId t) [Inc_balance x, Inc_typeTotal ty y]]"
        with c have "commit [UpdateToken tid (approval_fields e a n),
                      UpdateUser (userId t) [Inc_balance x, Inc_typeTotal ty y]] w = Inr w'"
          by (simp only:)
        from commit_approval_token [OF this] show ?thesis
          by (auto simp: update_conv')
      qed
    qed simp
  qed
qed

lemma processDeposit_cases:
  assumes "processDepositReferralAction e uid amt rc w = (r, w')"
  shows "(w' = w \<and> (r = Ok \<or> (\<exists>m. r = Failure m))) \<or>
     (\<exists>c ref rd. rc = Some c \<and> c \<noteq> [] \<and> referrerQuery c w = [(ref, rd)] \<and>
        r = OkCommission (fmul amt commissionRate) \<and>
        commit [SetToken (autoId e) (commissionToken e ref uid amt),
                UpdateUser ref
                  [Inc_totalCommissions (fmul amt commissionRate),
                   Inc_pendingCommissions (fmul amt commissionRate),
                   Inc_totalReferrals (Finite 1), Set_lastReferralDate (now e)],
                UpdateUser uid [Set_referredBy ref, Set_referralProcessedAt (now e)]] w
          = Inr w')"
proof (cases "rc = None \<or> rc = Some [] \<or> fault e 0")
  case True
  with assms show ?thesis
    by (cases rc) (auto simp: processDepositReferralAction_unfold getDocs_def split: if_splits)
next
  case False
  then obtain c where rc: "rc = Some c" and c: "c \<noteq> []" and nf: "\<not> fault e 0"
    by (cases rc) auto
  have len: "length (referrerQuery c w) \<le> 1"
    by (simp add: referrerQuery_def)
  show ?thesis
  proof (cases "referrerQuery c w")
    case Nil
    with assms rc c nf show ?thesis
      by (auto simp: processDepositReferralAction_unfold getDocs_def)
  next
    case (Cons p ps)
    with len have ps: "ps = []" by simp
    obtain ref rd where p: "p = (ref, rd)" by (cases p)
    have q: "referrerQuery c w = [(ref, rd)]"
      by (simp add: Cons ps p)
    obtain res w1 where rt:
        "runTransaction e 1 (referral_writes referralActions_imports e ref uid amt) w = (res, w1)"
      by (cases "runTransaction e 1 (referral_writes referralActions_imports e ref uid amt) w")
    from assms rc c nf q rt have rw:
        "(r, w') = try_catch msg_referral
           (case res of Inl x \<Rightarrow> (Inl x, w1)
            | Inr u \<Rightarrow> (Inr (OkCommission (fmul amt commissionRate)), w1))"
      by (simp add: processDepositReferralAction_unfold getDocs_def)
    from runTransaction_cases [OF rt] show ?thesis
    proof (elim disjE conjE exE)
      fix x
      assume "w1 = w" "res = Inl x"
      with rw show ?thesis by simp
    next
      fix ws
      assume res: "res = Inr ()"
        and ws: "referral_writes referralActions_imports e ref uid amt = Inr ws"
        and cm: "commit ws w = Inr w1"
      from ws have "ws = [SetToken (autoId e) (commissionToken e ref uid amt),
                UpdateUser ref
                  [Inc_totalCommissions (fmul amt commissionRate),
                   Inc_pendingCommissions (fmul amt commissionRate),
                   Inc_totalReferrals (Finite 1), Set_lastReferralDate (now e)],
                UpdateUser uid [Set_referredBy ref, Set_referralProcessedAt (now e)]]"
        by (simp add: referral_writes_def Let_def)
      with cm rw res rc c q show ?thesis
        by (simp del: commit.simps)
    qed
  qed
qed

lemma value_of_Some_cases:
  "value_of v = Some q \<longleftrightarrow> (v = None \<and> q = 0) \<or> v = Some (Finite q)"
  by (auto simp: value_of_def split: option.splits number.splits)

lemma stats_balanced_referrer:
  assumes "stats_balanced d"
    and "exact_increment a (totalCommissions (stats_of d))"
    and "exact_increment a (pendingCommissions (stats_of d))"
  shows "stats_balanced (fold setUserField
      [Inc_totalCommissions a, Inc_pendingCommissions a, Inc_totalReferrals k,
       Set_lastReferralDate n] d)"
  using assms
  by (auto simp: stats_balanced_def exact_increment_def stats_of_def split: option.splits)

lemma stats_balanced_depositor:
  "stats_balanced (fold setUserField [Set_referredBy x, Set_referralProcessedAt n] d)
     = stats_balanced d"
  by (simp add: stats_balanced_def stats_of_def)

lemma value_of_fneg:
  "value_of (Some (fneg a)) = map_option uminus (value_of (Some a))"
  by (simp add: value_of_def fneg_def split: number.splits)

lemma stats_balanced_approval:
  assumes "stats_balanced d"
    and "exact_increment a (approvedCommissions (stats_of d))"
    and "exact_increment (fneg a) (pendingCommissions (stats_of d))"
  shows "stats_balanced (fold setUserField
      [Inc_balance a, Inc_approvedCommissions a, Inc_pendingCommissions (fneg a)] d)"
  using assms
  by (auto simp: stats_balanced_def exact_increment_def stats_of_def value_of_fneg
      split: option.splits)

lemma stats_balanced_token_approval:
  "stats_balanced (fold setUserField [Inc_balance x, Inc_typeTotal ty y] d) = stats_balanced d"
  by (simp add: stats_balanced_def stats_of_def)

lemma run_stats_balanced:
  assumes run: "run e c w = (r, w')" and inv: "all_users stats_balanced w"
    and ex: "exact_step c w"
  shows "all_users stats_balanced w'"
proof -
  from run_users [OF run] consider
      (same) "users w' = users w"
    | (tok) tid a n where "c = ApproveToken tid a n"
    | (com) tid a where "c = ApproveReferralCommission tid a"
    | (dep) uid amt code where "c = ProcessDepositReferral uid amt code"
    by blast
  then show ?thesis
  proof cases
    case same
    with inv show ?thesis by (simp add: all_users_def)
  next
    case tok
    with run have a: "approveTokenAction_in unifiedTokenActions_imports e tid a n w = (r, w')"
      by (simp add: approveTokenAction_def)
    from approveTokenAction_in_effect [OF a] show ?thesis
    proof (elim disjE conjE exE)
      assume "w' = w"
      with inv show ?thesis by simp
    next
      fix t ws
      assume ws: "approve_writes unifiedTokenActions_imports e tid a n t = Inr ws"
        and c: "commit ws w = Inr w'"
      from approve_writes_Inr [OF ws] show ?thesis
      proof (elim disjE conjE exE)
        assume "ws = [UpdateToken tid (approval_fields e a n)]"
        with c have "commit [UpdateToken tid (approval_fields e a n)] w = Inr w'"
          by (simp only:)
        from commit_single_token [OF this] inv show ?thesis
          by (auto simp: all_users_def)
      next
        fix x ty y
        assume "ws = [UpdateToken tid (approval_fields e a n),
                      UpdateUser (userId t) [Inc_balance x, Inc_typeTotal ty y]]"
        with c have "commit [UpdateToken tid (approval_fields e a n),
                      UpdateUser (userId t) [Inc_balance x, Inc_typeTotal ty y]] w = Inr w'"
          by (simp only:)
        from commit_approval_token [OF this] obtain d where
            d: "map_of (users w) (userId t) = Some d"
            and u: "users w' = AList.update (userId t)
                      (fold setUserField [Inc_balance x, Inc_typeTotal ty y] d) (users w)"
          by auto
        from inv d have "stats_balanced d"
          unfolding all_users_def by (rule map_of_list_all)
        then have "stats_balanced (fold setUserField [Inc_balance x, Inc_typeTotal ty y] d)"
          by (simp only: stats_balanced_token_approval)
        with inv show ?thesis
          unfolding all_users_def u by (rule list_all_update)
      qed
    qed
  next
    case com
    with run have a: "approveReferralCommissionAction e tid a w = (r, w')"
      by simp
    from approveReferralCommissionAction_effect [OF a] show ?thesis
    proof (elim disjE conjE exE)
      assume "w' = w"
      with inv show ?thesis by simp
    next
      fix t
      assume t: "map_of (unifiedTokens w) tid = Some t"
        and "commit [UpdateToken tid
                       [Set_status approved, Set_approvedAt (now e), Set_approvedBy a],
                     UpdateUser (userId t)
                       [Inc_balance (amount t), Inc_approvedCommissions (amount t),
                        Inc_pendingCommissions (fneg (amount t))]] w = Inr w'"
      from commit_approval_token [OF this(2)] obtain d where
          d: "map_of (users w) (userId t) = Some d"
          and u: "users w' = AList.update (userId t)
                    (fold setUserField
                       [Inc_balance (amount t), Inc_approvedCommissions (amount t),
                        Inc_pendingCommissions (fneg (amount t))] d) (users w)"
        by auto
      from ex com t d have x:
          "exact_increment (amount t) (approvedCommissions (stats_of d))"
          "exact_increment (fneg (amount t)) (pendingCommissions (stats_of d))"
        by (simp_all add: exact_step_def)
      from inv d have "stats_balanced d"
        unfolding all_users_def by (rule map_of_list_all)
      then have "stats_balanced (fold setUserField
                       [Inc_balance (amount t), Inc_approvedCommissions (amount t),
                        Inc_pendingCommissions (fneg (amount t))] d)"
        using x by (rule stats_balanced_approval)
      with inv show ?thesis
        unfolding all_users_def u by (rule list_all_update)
    qed
  next
    case dep
    with run have a: "processDepositReferralAction e uid amt code w = (r, w')"
      by simp
    show ?thesis
    proof (cases "w' = w")
      case True
      with inv show ?thesis by simp
    next
      case False
      let ?gs = "\<lambda>ref. [Set_referredBy ref, Set_referralProcessedAt (now e)]"
      let ?fs = "[Inc_totalCommissions (fmul amt commissionRate),
                   Inc_pendingCommissions (fmul amt commissionRate),
                   Inc_totalReferrals (Finite 1), Set_lastReferralDate (now e)]"
      from processDeposit_cases [OF a] False obtain cd ref rd where
          cd: "code = Some cd" and q: "referrerQuery cd w = [(ref, rd)]"
          and "commit [SetToken (autoId e) (commissionToken e ref uid amt),
                UpdateUser ref ?fs, UpdateUser uid (?gs ref)] w = Inr w'"
        by blast
      from commit_referral [OF this(3)] obtain d d' where
          d: "map_of (users w) ref = Some d"
          and d': "map_of (AList.update ref (fold setUserField ?fs d) (users w)) uid = Some d'"
          and u: "users w' = AList.update uid (fold setUserField (?gs ref) d')
                    (AList.update ref (fold setUserField ?fs d) (users w))"
        by auto
      from ex dep cd q d have x:
          "exact_increment (fmul amt commissionRate) (totalCommissions (stats_of d))"
          "exact_increment (fmul amt commissionRate) (pendingCommissions (stats_of d))"
        by (simp_all add: exact_step_def)
      from inv d have "stats_balanced d"
        unfolding all_users_def by (rule map_of_list_all)
      then have 1: "stats_balanced (fold setUserField ?fs d)"
        using x by (rule stats_balanced_referrer)
      with inv have 2: "list_all (\<lambda>(i, u). stats_balanced u)
          (AList.update ref (fold setUserField ?fs d) (users w))"
        unfolding all_users_def by (rule list_all_update)
      from 2 d' have "stats_balanced d'"
        by (rule map_of_list_all)
      then have "stats_balanced (fold setUserField (?gs ref) d')"
        by (simp only: stats_balanced_depositor)
      with 2 show ?thesis
        unfolding all_users_def u by (rule list_all_update)
    qed
  qed
qed

lemma processDeposit_commissions:
  assumes "processDepositReferralAction e uid amt code w = (OkCommission a, w')"
  shows "a = fmul amt commissionRate \<and>
     (\<exists>ref rd cd. code = Some cd \<and> referrerQuery cd w = [(ref, rd)] \<and>
        (\<forall>j. commissions_of w' j =
           (if j = ref
            then map_option (\<lambda>(t, p, ap). (incremented a t, incremented a p, ap))
                   (commissions_of w j)
            else commissions_of w j)))"
proof -
  from processDeposit_cases [OF assms] show ?thesis
  proof (elim disjE conjE exE)
    fix cd ref rd
    let ?fs = "[Inc_totalCommissions (fmul amt commissionRate),
                 Inc_pendingCommissions (fmul amt commissionRate),
                 Inc_totalReferrals (Finite 1), Set_lastReferralDate (now e)]"
    let ?gs = "[Set_referredBy ref, Set_referralProcessedAt (now e)]"
    assume code: "code = Some cd" and q: "referrerQuery cd w = [(ref, rd)]"
      and a: "OkCommission a = OkCommission (fmul amt commissionRate)"
      and "commit [SetToken (autoId e) (commissionToken e ref uid amt),
                UpdateUser ref ?fs, UpdateUser uid ?gs] w = Inr w'"
    from commit_referral [OF this(4)] obtain d d' where
        d: "map_of (users w) ref = Some d"
        and d': "map_of (AList.update ref (fold setUserField ?fs d) (users w)) uid = Some d'"
        and u: "users w' = AList.update uid (fold setUserField ?gs d')
                  (AList.update ref (fold setUserField ?fs d) (users w))"
      by auto
    have "commissions (fold setUserField ?gs d') = commissions d'"
      by (rule commissions_depositor)
    note two = lookup_two_updates [OF d d' this]
    have "\<And>j. commissions_of w' j =
           (if j = ref
            then map_option (\<lambda>(t, p, ap). (incremented a t, incremented a p, ap))
                   (commissions_of w j)
            else commissions_of w j)"
      unfolding commissions_of_def u two commissions_referrer
      using a d by auto
    with code q a show ?thesis by auto
  qed auto
qed

lemma approveReferralCommission_commissions:
  assumes "approveReferralCommissionAction e tid admin w = (Ok, w')"
  shows "\<exists>t. map_of (unifiedTokens w) tid = Some t \<and>
     (\<forall>j. commissions_of w' j =
        (if j = userId t
         then map_option
                (\<lambda>(t0, p, ap). (t0, incremented (fneg (amount t)) p, incremented (amount t) ap))
                (commissions_of w j)
         else commissions_of w j))"
proof -
  from approveReferralCommissionAction_effect [OF assms] obtain t where
      t: "map_of (unifiedTokens w) tid = Some t"
      and c: "commit [UpdateToken tid
                       [Set_status approved, Set_approvedAt (now e), Set_approvedBy admin],
                     UpdateUser (userId t)
                       [Inc_balance (amount t), Inc_approvedCommissions (amount t),
                        Inc_pendingCommissions (fneg (amount t))]] w = Inr w'"
    by auto
  from commit_approval_token [OF c] obtain d where
      d: "map_of (users w) (userId t) = Some d"
      and u: "users w' = AList.update (userId t)
                (fold setUserField
                   [Inc_balance (amount t), Inc_approvedCommissions (amount t),
                    Inc_pendingCommissions (fneg (amount t))] d) (users w)"
    by auto
  have "\<And>j. commissions_of w' j =
        (if j = userId t
         then map_option
                (\<lambda>(t0, p, ap). (t0, incremented (fneg (amount t)) p, incremented (amount t) ap))
                (commissions_of w j)
         else commissions_of w j)"
    unfolding commissions_of_def u lookup_one_update [OF d] commissions_approval
    using d by auto
  with t show ?thesis by blast
qed

lemma approveReferralCommission_not_Ok:
  assumes "approveReferralCommissionAction e tid admin w = (r, w')" and "r \<noteq> Ok"
  shows "w' = w"
  using approveReferralCommissionAction_effect [OF assms(1)] assms(2) by auto

lemma processDeposit_not_commission:
  assumes "processDepositReferralAction e uid amt code w = (r, w')"
    and "\<forall>a. r \<noteq> OkCommission a"
  shows "w' = w"
  using processDeposit_cases [OF assms(1)] assms(2) by auto

subsection \<open>What a call returns\<close>






lemma fault_rejecting [simp]: "fault (rejecting k e) j \<longleftrightarrow> j = k \<or> fault e j"
  by (simp add: rejecting_def)






subsection \<open>The cleanup batch\<close>

lemma fold_mark_expired:
  "fold setTokenField [Set_status expired, Set_expiredAt n] t = mark_expired n t"
  by (simp add: mark_expired_def)

lemma mark_expired_idem [simp]: "mark_expired n (mark_expired n t) = mark_expired n t"
  by (simp add: mark_expired_def)

lemma commit_marks:
  assumes "fst ` set docs \<subseteq> fst ` set (unifiedTokens w)"
  shows "\<exists>w'. commit (map (\<lambda>(i, t). UpdateToken i [Set_status expired, Set_expiredAt n]) docs) w
                = Inr w' \<and>
           users w' = users w \<and> transactions w' = transactions w \<and>
           map fst (unifiedTokens w') = map fst (unifiedTokens w) \<and>
           (\<forall>j. map_of (unifiedTokens w') j =
              (if j \<in> fst ` set docs then map_option (mark_expired n) (map_of (unifiedTokens w) j)
               else map_of (unifiedTokens w) j))"
  using assms
proof (induction docs arbitrary: w)
  case Nil
  then show ?case by simp
next
  case (Cons d docs)
  obtain i t where d: "d = (i, t)" by (cases d)
  from Cons.prems d have "i \<in> fst ` set (unifiedTokens w)"
    by auto
  from key_exists [OF this] obtain t0 where t0: "map_of (unifiedTokens w) i = Some t0"
    by blast
  define w1 where
    "w1 = w\<lparr>unifiedTokens := AList.update i (mark_expired n t0) (unifiedTokens w)\<rparr>"
  have a: "apply_write (UpdateToken i [Set_status expired, Set_expiredAt n]) w = Inr w1"
    unfolding apply_write_UpdateToken fold_mark_expired w1_def using t0 by simp
  have keys: "map fst (unifiedTokens w1) = map fst (unifiedTokens w)"
    using \<open>i \<in> fst ` set (unifiedTokens w)\<close> by (simp add: w1_def update_keys)
  then have "fst ` set (unifiedTokens w1) = fst ` set (unifiedTokens w)"
    by (metis list.set_map)
  with Cons.prems have "fst ` set docs \<subseteq> fst ` set (unifiedTokens w1)"
    by auto
  from Cons.IH [OF this] obtain w' where
      c: "commit (map (\<lambda>(i, t). UpdateToken i [Set_status expired, Set_expiredAt n]) docs) w1
            = Inr w'"
      and f: "users w' = users w1" "transactions w' = transactions w1"
        "map fst (unifiedTokens w') = map fst (unifiedTokens w1)"
      and m: "\<And>j. map_of (unifiedTokens w') j =
              (if j \<in> fst ` set docs then map_option (mark_expired n) (map_of (unifiedTokens w1) j)
               else map_of (unifiedTokens w1) j)"
    by blast
  have c': "commit (map (\<lambda>(i, t). UpdateToken i [Set_status expired, Set_expiredAt n]) (d # docs)) w
      = Inr w'"
    using a c by (simp add: d del: apply_write.simps)
  have m1: "\<And>j. map_of (unifiedTokens w1) j = ((map_of (unifiedTokens w))(i \<mapsto> mark_expired n t0)) j"
    by (simp add: w1_def update_conv')
  have "\<And>j. map_of (unifiedTokens w') j =
      (if j \<in> fst ` set (d # docs) then map_option (mark_expired n) (map_of (unifiedTokens w) j)
       else map_of (unifiedTokens w) j)"
    unfolding m m1 using t0 by (auto simp: d)
  with c' f keys show ?case
    by (auto simp: w1_def)
qed

lemma expiredQuery_subset:
  "set (expiredQuery n w) \<subseteq> set (whereDocs (is_expired n) (unifiedTokens w))"
  by (auto simp: expiredQuery_def orderByAsc_def dest: in_set_takeD)

lemma expiredQuery_length:
  "length (expiredQuery n w) = min 100 (length (whereDocs (is_expired n) (unifiedTokens w)))"
  by (simp add: expiredQuery_def orderByAsc_def)

lemma expiredQuery_all:
  "length (whereDocs (is_expired n) (unifiedTokens w)) \<le> 100 \<Longrightarrow>
     set (expiredQuery n w) = set (whereDocs (is_expired n) (unifiedTokens w))"
  by (simp add: expiredQuery_def orderByAsc_def)

lemma whereDocs_set: "set (whereDocs p c) = {(i, d) \<in> set c. p d}"
  by (auto simp: whereDocs_def)

lemma distinct_keys_whereDocs:
  "distinct (map fst c) \<Longrightarrow> distinct (map fst (whereDocs p c))"
  by (simp add: whereDocs_def distinct_map_filter)

lemma distinct_keys_sort_key:
  "distinct (map fst c) \<Longrightarrow> distinct (map fst (sort_key k c))"
  by (simp add: distinct_map)

lemma distinct_keys_take:
  "distinct (map fst c) \<Longrightarrow> distinct (map fst (take m c))"
  by (simp add: take_map [symmetric])

lemma expiredQuery_distinct:
  "distinct (map fst (unifiedTokens w)) \<Longrightarrow> distinct (map fst (expiredQuery n w))"
  unfolding expiredQuery_def orderByAsc_def
  by (intro distinct_keys_take distinct_keys_sort_key distinct_keys_whereDocs)

lemma distinct_key_member:
  assumes "distinct (map fst c)" and "(i, t) \<in> set c" and "set ds \<subseteq> set c"
  shows "i \<in> fst ` set ds \<longleftrightarrow> (i, t) \<in> set ds"
proof
  assume "i \<in> fst ` set ds"
  then obtain t' where t': "(i, t') \<in> set ds" by auto
  with assms(3) have "(i, t') \<in> set c" by auto
  with assms(1,2) have "t' = t"
    by (meson eq_key_imp_eq_value)
  with t' show "(i, t) \<in> set ds" by simp
next
  assume "(i, t) \<in> set ds"
  then show "i \<in> fst ` set ds" by force
qed

lemma is_expired_iff:
  "is_expired n t \<longleftrightarrow> status t = pending \<and> (\<exists>x. expiresAt t = Some x \<and> x \<le> n)"
  by (auto simp: is_expired_def split: option.splits)

subsection \<open>Token statuses\<close>

lemma status_of_update:
  "status_of (w\<lparr>unifiedTokens := AList.update k t (unifiedTokens w)\<rparr>) i
     = (if i = k then Some (status t) else status_of w i)"
  by (simp add: status_of_def update_conv')

lemma status_of_fresh: "k \<notin> fst ` set (unifiedTokens w) \<Longrightarrow> status_of w k = None"
  by (simp add: status_of_def map_of_eq_None_keys)

lemma status_step_same: "w' = w \<Longrightarrow> status_step e c r w w' i"
  by (simp add: status_step_def)

lemma status_step_new:
  assumes "autoId e \<notin> fst ` set (unifiedTokens w)"
    and "unifiedTokens w' = AList.update (autoId e) t (unifiedTokens w)"
  shows "status_step e c r w w' i"
  using assms by (auto simp: status_step_def status_of_def update_conv' map_of_eq_None_keys)

lemma approveTokenAction_in_tokens:
  assumes "approveTokenAction_in scope e tid admin n w = (r, w')"
  shows "w' = w \<or>
     (r = Ok \<and> (\<exists>t t'. map_of (unifiedTokens w) tid = Some t \<and> status t = pending \<and>
        status t' = approved \<and> unifiedTokens w' = AList.update tid t' (unifiedTokens w)))"
proof -
  from approveTokenAction_in_effect [OF assms] show ?thesis
  proof (elim disjE conjE exE)
    fix t ws
    assume r: "r = Ok" and t: "map_of (unifiedTokens w) tid = Some t" "status t = pending"
      and ws: "approve_writes scope e tid admin n t = Inr ws" and c: "commit ws w = Inr w'"
    from approve_writes_Inr [OF ws] show ?thesis
    proof (elim disjE conjE exE)
      assume "ws = [UpdateToken tid (approval_fields e admin n)]"
      with c have "commit [UpdateToken tid (approval_fields e admin n)] w = Inr w'"
        by (simp only:)
      from commit_single_token [OF this] r t show ?thesis
        by (auto intro!: exI [of _ "fold setTokenField (approval_fields e admin n) t"])
    next
      fix x ty y
      assume "ws = [UpdateToken tid (approval_fields e admin n),
                    UpdateUser (userId t) [Inc_balance x, Inc_typeTotal ty y]]"
      with c have "commit [UpdateToken tid (approval_fields e admin n),
                    UpdateUser (userId t) [Inc_balance x, Inc_typeTotal ty y]] w = Inr w'"
        by (simp only:)
      from commit_approval_token [OF this] r t show ?thesis
        by (auto intro!: exI [of _ "fold setTokenField (approval_fields e admin n) t"])
    qed
  qed simp
qed

lemma approveReferralCommissionAction_tokens:
  assumes "approveReferralCommissionAction e tid admin w = (r, w')"
  shows "w' = w \<or>
     (r = Ok \<and> (\<exists>t t'. map_of (unifiedTokens w) tid = Some t \<and> status t = pending \<and>
        status t' = approved \<and> unifiedTokens w' = AList.update tid t' (unifiedTokens w)))"
proof -
  from approveReferralCommissionAction_effect [OF assms] show ?thesis
  proof (elim disjE conjE exE)
    fix t
    assume r: "r = Ok" and t: "map_of (unifiedTokens w) tid = Some t" "status t = pending"
      and c: "commit [UpdateToken tid
                       [Set_status approved, Set_approvedAt (now e), Set_approvedBy admin],
                     UpdateUser (userId t)
                       [Inc_balance (amount t), Inc_approvedCommissions (amount t),
                        Inc_pendingCommissions (fneg (amount t))]] w = Inr w'"
    from commit_approval_token [OF c] r t show ?thesis
      by (auto intro!: exI [of _ "fold setTokenField
            [Set_status approved, Set_approvedAt (now e), Set_approvedBy admin] t"])
  qed simp
qed

lemma status_step_approval:
  assumes "map_of (unifiedTokens w) tid = Some t" and "status t = pending"
    and "status t' = approved" and "unifiedTokens w' = AList.update tid t' (unifiedTokens w)"
    and "approval_of tid c"
  shows "status_step e c Ok w w' i"
  using assms by (auto simp: status_step_def status_of_def update_conv')

lemma cleanup_cases:
  assumes "cleanupExpiredTokensAction e w = (r, w')"
  shows "w' = w \<or>
     commit (map (\<lambda>(i, t). UpdateToken i [Set_status expired, Set_expiredAt (now e)])
               (expiredQuery (now e) w)) w = Inr w'"
  using assms
  by (auto simp: cleanupExpiredTokensAction_unfold getDocs_def batchCommit_def
      split: if_splits sum.splits)

lemma status_step_cleanup:
  assumes run: "cleanupExpiredTokensAction e w = (r, w')"
    and dist: "distinct (map fst (unifiedTokens w))"
  shows "status_step e CleanupExpiredTokens r w w' i"
proof -
  let ?D = "expiredQuery (now e) w"
  from cleanup_cases [OF run] show ?thesis
  proof
    assume "w' = w"
    then show ?thesis by (rule status_step_same)
  next
    assume c: "commit (map (\<lambda>(i, t). UpdateToken i [Set_status expired, Set_expiredAt (now e)])
               ?D) w = Inr w'"
    have sub: "set ?D \<subseteq> set (whereDocs (is_expired (now e)) (unifiedTokens w))"
      by (rule expiredQuery_subset)
    then have sub': "set ?D \<subseteq> set (unifiedTokens w)"
      using whereDocs_subset by blast
    then have "fst ` set ?D \<subseteq> fst ` set (unifiedTokens w)"
      by auto
    from commit_marks [OF this, of "now e"] c
    have m: "map_of (unifiedTokens w') i =
        (if i \<in> fst ` set ?D then map_option (mark_expired (now e)) (map_of (unifiedTokens w) i)
         else map_of (unifiedTokens w) i)"
      by auto
    show ?thesis
    proof (cases "i \<in> fst ` set ?D")
      case False
      with m show ?thesis by (simp add: status_step_def status_of_def)
    next
      case True
      then obtain t where t: "(i, t) \<in> set ?D" by auto
      with sub have "is_expired (now e) t"
        by (auto simp: whereDocs_set)
      then have p: "status t = pending"
        by (simp add: is_expired_iff)
      from t sub' have "(i, t) \<in> set (unifiedTokens w)" by auto
      with dist have "map_of (unifiedTokens w) i = Some t" by simp
      with m True p show ?thesis
        by (simp add: status_step_def status_of_def mark_expired_def)
    qed
  qed
qed

lemma run_status:
  assumes run: "run e c w = (r, w')" and g: "status_guarded c"
    and dist: "distinct (map fst (unifiedTokens w))"
    and fresh: "autoId e \<notin> fst ` set (unifiedTokens w)"
  shows "status_step e c r w w' i"
proof (cases c)
  case (CreateUnifiedToken uid ty amt md days)
  with run have "w' = w \<or> (\<exists>t. unifiedTokens w' = AList.update (autoId e) t (unifiedTokens w))"
    by (auto simp: createUnifiedTokenAction_unfold addDoc_def Let_def split: if_splits)
  with fresh show ?thesis
    by (auto intro: status_step_same status_step_new)
next
  case (UpdateUnifiedToken tid fs)
  with g show ?thesis by simp
next
  case (GetUnifiedToken tid)
  with run have "w' = w"
    by (auto simp: getUnifiedTokenAction_unfold getDoc_def split: if_splits option.splits)
  then show ?thesis by (rule status_step_same)
next
  case (GetUserUnifiedTokens uid ty st n)
  with run have "w' = w"
    by (auto simp: getUserUnifiedTokensAction_unfold Let_def split: sum.splits)
  then show ?thesis by (rule status_step_same)
next
  case (ApproveToken tid a n)
  with run have "approveTokenAction_in unifiedTokenActions_imports e tid a n w = (r, w')"
    by (simp add: approveTokenAction_def)
  from approveTokenAction_in_tokens [OF this] show ?thesis
  proof (elim disjE conjE exE)
    assume "w' = w"
    then show ?thesis by (rule status_step_same)
  next
    fix t t'
    assume "r = Ok" "map_of (unifiedTokens w) tid = Some t" "status t = pending"
      "status t' = approved" "unifiedTokens w' = AList.update tid t' (unifiedTokens w)"
    then show ?thesis
      using ApproveToken by (auto intro: status_step_approval)
  qed
next
  case (RejectToken tid a reason)
  with g show ?thesis by simp
next
  case CleanupExpiredTokens
  with run dist show ?thesis
    by (auto intro: status_step_cleanup)
next
  case GetTokenStatistics
  with run have "w' = w"
    by (auto simp: getTokenStatisticsAction_unfold getDocs_def Let_def split: if_splits)
  then show ?thesis by (rule status_step_same)
next
  case (MigrateTransactionToToken xid a)
  with run have "w' = w \<or> (\<exists>t. unifiedTokens w' = AList.update (autoId e) t (unifiedTokens w))"
    by (auto simp: migrateTransactionToTokenAction_unfold getDoc_def addDoc_def updateDoc_def
        updateIn_def Let_def split: if_splits option.splits)
  with fresh show ?thesis
    by (auto intro: status_step_same status_step_new)
next
  case (ProcessDepositReferral uid amt code)
  with run have a: "processDepositReferralAction e uid amt code w = (r, w')"
    by simp
  show ?thesis
  proof (cases "w' = w")
    case True
    then show ?thesis by (rule status_step_same)
  next
    case False
    with processDeposit_cases [OF a] obtain ref where
        "commit [SetToken (autoId e) (commissionToken e ref uid amt),
                UpdateUser ref
                  [Inc_totalCommissions (fmul amt commissionRate),
                   Inc_pendingCommissions (fmul amt commissionRate),
                   Inc_totalReferrals (Finite 1), Set_lastReferralDate (now e)],
                UpdateUser uid [Set_referredBy ref, Set_referralProcessedAt (now e)]] w
          = Inr w'"
      by blast
    from commit_referral [OF this]
    have "unifiedTokens w' = AList.update (autoId e) (commissionToken e ref uid amt)
        (unifiedTokens w)"
      by auto
    with fresh show ?thesis
      by (rule status_step_new)
  qed
next
  case (GetUserReferralStats uid)
  with run have "w' = w"
    by (auto simp: getUserReferralStatsAction_unfold getDoc_def split: if_splits option.splits)
  then show ?thesis by (rule status_step_same)
next
  case (GetUserReferralCommissionTokens uid)
  with run have "w' = w"
    by (auto simp: getUserReferralCommissionTokensAction_unfold getDocs_def split: if_splits)
  then show ?thesis by (rule status_step_same)
next
  case (ApproveReferralCommission tid a)
  with run have "approveReferralCommissionAction e tid a w = (r, w')"
    by simp
  from approveReferralCommissionAction_tokens [OF this] show ?thesis
  proof (elim disjE conjE exE)
    assume "w' = w"
    then show ?thesis by (rule status_step_same)
  next
    fix t t'
    assume "r = Ok" "map_of (unifiedTokens w) tid = Some t" "status t = pending"
      "status t' = approved" "unifiedTokens w' = AList.update tid t' (unifiedTokens w)"
    then show ?thesis
      using ApproveReferralCommission by (auto intro: status_step_approval)
  qed
next
  case (GetUserReferralChain uid)
  with run have "w' = w"
    by (auto simp: getUserReferralChainAction_unfold getDocs_def split: if_splits)
  then show ?thesis by (rule status_step_same)
next
  case GetPendingReferralCommissions
  with run have "w' = w"
    by (auto simp: getPendingReferralCommissionsAction_unfold getDocs_def
        split: if_splits list.splits)
  then show ?thesis by (rule status_step_same)
next
  case (AnalyzeReferralPerformance uid)
  with run have "w' = w"
    by (auto simp: analyzeReferralPerformanceAction_unfold getDocs_def Let_def split: if_splits)
  then show ?thesis by (rule status_step_same)
qed

lemma create_starts_pending:
  assumes "createUnifiedTokenAction e uid ty amt md days w = (OkTokenId j, w')"
  shows "j = autoId e \<and> status_of w' j = Some pending"
  using assms
  by (auto simp: createUnifiedTokenAction_unfold addDoc_def Let_def status_of_update
      split: if_splits)

lemma update_writes_any_status:
  assumes "updateUnifiedTokenAction e tid updates w = (Ok, w')"
  shows "\<exists>t. map_of (unifiedTokens w) tid = Some t \<and>
     map_of (unifiedTokens w') tid
       = Some (fold setTokenField (updates @ [Set_updatedAt (now e)]) t)"
  using assms
  by (auto simp: updateUnifiedTokenAction_unfold updateDoc_def updateIn_def update_conv'
      split: if_splits option.splits simp del: fold_append)

subsection \<open>Ordered queries\<close>

lemma orderByDesc_set [simp]: "set (orderByDesc f c) = set c"
  by (simp add: orderByDesc_def orderByAsc_def)

lemma orderByDesc_length [simp]: "length (orderByDesc f c) = length c"
  by (simp add: orderByDesc_def orderByAsc_def)

lemma orderByAsc_sorted:
  "sorted_wrt (\<lambda>a b. f (snd a) \<le> f (snd b)) (orderByAsc f c)"
proof -
  have "sorted (map (\<lambda>(i, d). (f d, i)) (orderByAsc f c))"
    unfolding orderByAsc_def by (rule sorted_sort_key)
  then have "sorted_wrt (\<lambda>a b. (case a of (i, d) \<Rightarrow> (f d, i)) \<le> (case b of (i, d) \<Rightarrow> (f d, i)))
      (orderByAsc f c)"
    by (simp add: sorted_map)
  then show ?thesis
    by (rule sorted_wrt_mono_rel [rotated]) (auto simp: less_eq_prod_def)
qed

lemma orderByDesc_sorted:
  "sorted_wrt (\<lambda>a b. f (snd b) \<le> f (snd a)) (orderByDesc f c)"
  unfolding orderByDesc_def sorted_wrt_rev by (rule orderByAsc_sorted)

lemma type_filter_discarded:
  "getUserUnifiedTokensAction e uid (Some ty) (Some st) n w
     = getUserUnifiedTokensAction e uid None (Some st) n w"
  by (auto simp: getUserUnifiedTokensAction_unfold Let_def limitDocs_def split: sum.splits)

lemma status_query_result:
  assumes "\<not> fault e 0" and "0 < limit_of n"
  shows "getUserUnifiedTokensAction e uid ty (Some st) n w
     = (OkTokens (take (nat (limit_of n)) (orderByDesc createdAt
          (whereDocs (\<lambda>t. status t = st) (whereDocs (\<lambda>t. userId t = uid) (unifiedTokens w))))),
        w)"
  using assms
  by (cases ty)
     (simp_all add: getUserUnifiedTokensAction_unfold Let_def limitDocs_def getDocs_def limit_of_def)

lemma whereDocs_twice:
  "whereDocs q (whereDocs p c) = filter (\<lambda>(i, d). p d \<and> q d) c"
  by (induction c) (auto simp: whereDocs_def)

subsection \<open>The status of a token (C1)\<close>

text \<open>
  Claim C1, as amended. A token created by \<^verbatim>\<open>createUnifiedTokenAction\<close> starts \<^verbatim>\<open>pending\<close>.
  In a database with unique document ids, and when the generated id is new, every exported
  operation other than \<^verbatim>\<open>updateUnifiedTokenAction\<close> and \<^verbatim>\<open>rejectTokenAction\<close> leaves the status
  of every token that is not pending as it is, and takes a pending token only to
  \<^verbatim>\<open>approved\<close> (a successful approval of that token) or to \<^verbatim>\<open>expired\<close> (the cleanup).
  \<^verbatim>\<open>updateUnifiedTokenAction\<close> writes the fields it is given, the status among them, to an
  existing token in any status.
\<close>

theorem C1_status_leaves_pending_only:
  assumes "run e c w = (r, w')"
  shows "(status_guarded c \<and> wf_world w \<and> autoId e \<notin> fst ` set (unifiedTokens w) \<longrightarrow>
            (status_of w i = Some s \<and> s \<noteq> pending \<longrightarrow> status_of w' i = Some s) \<and>
            (status_of w i = Some pending \<and> status_of w' i \<noteq> Some pending \<longrightarrow>
               (status_of w' i = Some approved \<and> r = Ok \<and> approval_of i c) \<or>
               (status_of w' i = Some expired \<and> c = CleanupExpiredTokens))) \<and>
         (c = CreateUnifiedToken uid ty amt md days \<and> r = OkTokenId j \<longrightarrow>
            j = autoId e \<and> status_of w' j = Some pending) \<and>
         (c = UpdateUnifiedToken tid updates \<and> r = Ok \<longrightarrow>
            (\<exists>t. map_of (unifiedTokens w) tid = Some t \<and>
               map_of (unifiedTokens w') tid
                 = Some (fold setTokenField (updates @ [Set_updatedAt (now e)]) t)))"
proof (intro conjI)
  show "status_guarded c \<and> wf_world w \<and> autoId e \<notin> fst ` set (unifiedTokens w) \<longrightarrow>
            (status_of w i = Some s \<and> s \<noteq> pending \<longrightarrow> status_of w' i = Some s) \<and>
            (status_of w i = Some pending \<and> status_of w' i \<noteq> Some pending \<longrightarrow>
               (status_of w' i = Some approved \<and> r = Ok \<and> approval_of i c) \<or>
               (status_of w' i = Some expired \<and> c = CleanupExpiredTokens))"
  proof (rule impI)
    assume h: "status_guarded c \<and> wf_world w \<and> autoId e \<notin> fst ` set (unifiedTokens w)"
    then have "status_step e c r w w' i"
      using run_status [OF assms] by (simp add: wf_world_def)
    then show "(status_of w i = Some s \<and> s \<noteq> pending \<longrightarrow> status_of w' i = Some s) \<and>
            (status_of w i = Some pending \<and> status_of w' i \<noteq> Some pending \<longrightarrow>
               (status_of w' i = Some approved \<and> r = Ok \<and> approval_of i c) \<or>
               (status_of w' i = Some expired \<and> c = CleanupExpiredTokens))"
      by (auto simp: status_step_def)
  qed
  show "c = CreateUnifiedToken uid ty amt md days \<and> r = OkTokenId j \<longrightarrow>
            j = autoId e \<and> status_of w' j = Some pending"
    using assms create_starts_pending [of e uid ty amt md days w j w'] by auto
  show "c = UpdateUnifiedToken tid updates \<and> r = Ok \<longrightarrow>
            (\<exists>t. map_of (unifiedTokens w) tid = Some t \<and>
               map_of (unifiedTokens w') tid
                 = Some (fold setTokenField (updates @ [Set_updatedAt (now e)]) t))"
    using assms update_writes_any_status [of e tid updates w w'] by auto
qed

theorem C1_status_leaves_pending_only_witness:
  "status_of (snd (run e0 (ApproveReferralCommission ''t3'' ''admin'') w_ledger)) ''t2''
     = Some approved \<and>
   status_of (snd (run e0 (ApproveReferralCommission ''t3'' ''admin'') w_ledger)) ''t3''
     = Some approved \<and>
   fst (run e0 (ApproveReferralCommission ''t3'' ''admin'') w_ledger) = Ok \<and>
   status_of (snd (run e0 (CreateUnifiedToken ''bob'' bonus (Finite 5) None (Some 7)) w_ledger)) ''new''
     = Some pending \<and>
   status_of (snd (run e0 (UpdateUnifiedToken ''t2'' [Set_status pending]) w_ledger)) ''t2''
     = Some pending"
proof -
  let ?app = "ApproveReferralCommission ''t3'' ''admin''"
  let ?cre = "CreateUnifiedToken ''bob'' bonus (Finite 5) None (Some 7)"
  let ?upd = "UpdateUnifiedToken ''t2'' [Set_status pending]"
  have h: "status_guarded ?app \<and> wf_world w_ledger \<and>
      autoId e0 \<notin> fst ` set (unifiedTokens w_ledger)"
    by (simp add: wf_world_def example_defs)
  have s2: "status_of w_ledger ''t2'' = Some approved \<and> approved \<noteq> pending"
    by (simp add: status_of_def example_defs)
  have s3: "status_of w_ledger ''t3'' = Some pending"
    by (simp add: status_of_def example_defs)
  have a3: "status_of (snd (run e0 ?app w_ledger)) ''t3'' = Some approved"
    by (simp add: action_defs request_defs status_of_def example_defs)
  from C1_status_leaves_pending_only
         [of e0 ?app w_ledger "fst (run e0 ?app w_ledger)" "snd (run e0 ?app w_ledger)"
            "''t2''" approved] h s2
  have a2: "status_of (snd (run e0 ?app w_ledger)) ''t2'' = Some approved"
    by simp
  from C1_status_leaves_pending_only
         [of e0 ?app w_ledger "fst (run e0 ?app w_ledger)" "snd (run e0 ?app w_ledger)"
            "''t3''"] h s3 a3
  have ok: "fst (run e0 ?app w_ledger) = Ok"
    by simp
  have cr: "fst (run e0 ?cre w_ledger) = OkTokenId ''new''"
    by (simp add: createUnifiedTokenAction_unfold request_defs example_defs Let_def)
  from C1_status_leaves_pending_only
         [of e0 ?cre w_ledger "fst (run e0 ?cre w_ledger)" "snd (run e0 ?cre w_ledger)"
            "''t1''" approved "''bob''" bonus "Finite 5" None "Some 7" "''new''"] cr
  have c: "status_of (snd (run e0 ?cre w_ledger)) ''new'' = Some pending"
    by (simp add: e0_def)
  have up: "fst (run e0 ?upd w_ledger) = Ok"
    by (simp add: updateUnifiedTokenAction_unfold request_defs example_defs)
  from C1_status_leaves_pending_only
         [of e0 ?upd w_ledger "fst (run e0 ?upd w_ledger)" "snd (run e0 ?upd w_ledger)"
            _ _ _ _ _ _ _ _ "''t2''" "[Set_status pending]"] up
  have "\<exists>t. map_of (unifiedTokens (snd (run e0 ?upd w_ledger))) ''t2''
      = Some (fold setTokenField ([Set_status pending] @ [Set_updatedAt (now e0)]) t)"
    by auto
  then have u: "status_of (snd (run e0 ?upd w_ledger)) ''t2'' = Some pending"
    by (auto simp: status_of_def)
  from a2 a3 ok c u show ?thesis
    by (intro conjI)
qed

text \<open>
  The claim as stated fails: \<^verbatim>\<open>updateUnifiedTokenAction\<close> with \<^verbatim>\<open>{status: 'pending'}\<close> takes
  an approved token back to pending.
\<close>

theorem C1_update_rewrites_status_counterexample:
  "status_of w_ledger ''t2'' = Some approved \<and>
   fst (run e0 (UpdateUnifiedToken ''t2'' [Set_status pending]) w_ledger) = Ok \<and>
   status_of (snd (run e0 (UpdateUnifiedToken ''t2'' [Set_status pending]) w_ledger)) ''t2''
     = Some pending"
  by (simp add: updateUnifiedTokenAction_unfold request_defs status_of_def example_defs)

subsection \<open>Balances change only with an approval (C2)\<close>

text \<open>
  Claim C2, as amended. Whatever exported operation runs, if the balance of a user differs after the
  call, then the call was \<^verbatim>\<open>approveTokenAction\<close> or \<^verbatim>\<open>approveReferralCommissionAction\<close>, it
  returned \<^verbatim>\<open>{success: true}\<close>, the user is the owner of the token named in the call, and that
  token was \<^verbatim>\<open>pending\<close> before and is \<^verbatim>\<open>approved\<close> after: the two writes are the one
  transaction. \<^verbatim>\<open>processDepositReferralAction\<close> leaves every field of every user as it was,
  but for \<^verbatim>\<open>referralStats\<close>, \<^verbatim>\<open>referredBy\<close> and \<^verbatim>\<open>referralProcessedAt\<close>.
\<close>

theorem C2_balance_changes_only_with_approval:
  assumes "run e c w = (r, w')"
  shows "(balance_of w' u \<noteq> balance_of w u \<longrightarrow>
            r = Ok \<and>
            (\<exists>tid admin t t'.
               (c = ApproveReferralCommission tid admin \<or> (\<exists>n. c = ApproveToken tid admin n)) \<and>
               map_of (unifiedTokens w) tid = Some t \<and> status t = pending \<and> userId t = u \<and>
               map_of (unifiedTokens w') tid = Some t' \<and> status t' = approved)) \<and>
         ((\<exists>uid amt code. c = ProcessDepositReferral uid amt code) \<longrightarrow>
            map_option outside_referral (map_of (users w') u)
              = map_option outside_referral (map_of (users w) u))"
proof (rule conjI; rule impI)
  assume "\<exists>uid amt code. c = ProcessDepositReferral uid amt code"
  with assms show "map_option outside_referral (map_of (users w') u)
              = map_option outside_referral (map_of (users w) u)"
    by (auto simp: processDeposit_outside_referral)
next
  assume ch: "balance_of w' u \<noteq> balance_of w u"
  then have neq: "w' \<noteq> w" by auto
  from run_users [OF assms] ch consider
      (tok) tid a n where "c = ApproveToken tid a n"
    | (com) tid a where "c = ApproveReferralCommission tid a"
    | (dep) uid amt code where "c = ProcessDepositReferral uid amt code"
    by (auto simp: balance_of_def)
  then show "r = Ok \<and>
            (\<exists>tid admin t t'.
               (c = ApproveReferralCommission tid admin \<or> (\<exists>n. c = ApproveToken tid admin n)) \<and>
               map_of (unifiedTokens w) tid = Some t \<and> status t = pending \<and> userId t = u \<and>
               map_of (unifiedTokens w') tid = Some t' \<and> status t' = approved)"
  proof cases
    case tok
    with assms have "approveTokenAction_in unifiedTokenActions_imports e tid a n w = (r, w')"
      by (simp add: approveTokenAction_def)
    from approveTokenAction_in_Ok [OF this] neq obtain t t' where
        r: "r = Ok" and t: "map_of (unifiedTokens w) tid = Some t" "status t = pending"
          "map_of (unifiedTokens w') tid = Some t'" "status t' = approved"
        and frame: "\<forall>j. j \<noteq> userId t \<longrightarrow> map_of (users w') j = map_of (users w) j"
      by blast
    have "userId t = u"
    proof (rule ccontr)
      assume "userId t \<noteq> u"
      with frame have "map_of (users w') u = map_of (users w) u"
        by simp
      with ch show False
        by (simp add: balance_of_def)
    qed
    with r t tok show ?thesis
      by blast
  next
    case com
    with assms have "approveReferralCommissionAction e tid a w = (r, w')"
      by simp
    from approveReferralCommissionAction_Ok [OF this] neq obtain t t' where
        r: "r = Ok" and t: "map_of (unifiedTokens w) tid = Some t" "status t = pending"
          "map_of (unifiedTokens w') tid = Some t'" "status t' = approved"
        and frame: "\<forall>j. j \<noteq> userId t \<longrightarrow> map_of (users w') j = map_of (users w) j"
      by blast
    have "userId t = u"
    proof (rule ccontr)
      assume "userId t \<noteq> u"
      with frame have "map_of (users w') u = map_of (users w) u"
        by simp
      with ch show False
        by (simp add: balance_of_def)
    qed
    with r t com show ?thesis
      by blast
  next
    case dep
    with assms have "processDepositReferralAction e uid amt code w = (r, w')"
      by simp
    from processDeposit_outside_referral [OF this, of u]
    have "map_option balance (map_option outside_referral (map_of (users w') u))
           = map_option balance (map_option outside_referral (map_of (users w) u))"
      by simp
    then have "balance_of w' u = balance_of w u"
      by (simp add: balance_of_def option.map_comp comp_def balance_outside_referral)
    with ch show ?thesis by simp
  qed
qed

theorem C2_balance_changes_only_with_approval_witness:
  "balance_of w_ledger ''alice'' = Some (Some (Finite 50)) \<and>
   balance_of (snd (run e0 (ApproveReferralCommission ''t3'' ''admin'') w_ledger)) ''alice''
     = Some (Some (Finite 150)) \<and>
   fst (run e0 (ApproveReferralCommission ''t3'' ''admin'') w_ledger) = Ok \<and>
   status_of w_ledger ''t3'' = Some pending \<and>
   status_of (snd (run e0 (ApproveReferralCommission ''t3'' ''admin'') w_ledger)) ''t3''
     = Some approved \<and>
   map_option outside_referral
     (map_of (users (snd (run e0 (ProcessDepositReferral ''bob'' (Finite 200) (Some ''ABC'')) w_ledger)))
        ''alice'')
     = Some (outside_referral alice)"
proof -
  let ?c = "ApproveReferralCommission ''t3'' ''admin''"
  let ?d = "ProcessDepositReferral ''bob'' (Finite 200) (Some ''ABC'')"
  have b0: "balance_of w_ledger ''alice'' = Some (Some (Finite 50))"
    by (simp add: balance_of_def example_defs)
  have b1: "balance_of (snd (run e0 ?c w_ledger)) ''alice'' = Some (Some (Finite 150))"
    by (simp add: action_defs request_defs example_defs balance_of_def incremented_def
        round64_150)
  have ne: "balance_of (snd (run e0 ?c w_ledger)) ''alice'' \<noteq> balance_of w_ledger ''alice''"
    unfolding b0 b1 by simp
  from C2_balance_changes_only_with_approval
         [of e0 ?c w_ledger "fst (run e0 ?c w_ledger)" "snd (run e0 ?c w_ledger)" "''alice''"] ne
  have "fst (run e0 ?c w_ledger) = Ok \<and>
      (\<exists>t t'. map_of (unifiedTokens w_ledger) ''t3'' = Some t \<and> status t = pending \<and>
         map_of (unifiedTokens (snd (run e0 ?c w_ledger))) ''t3'' = Some t' \<and>
         status t' = approved)"
    by auto
  then have a: "fst (run e0 ?c w_ledger) = Ok \<and> status_of w_ledger ''t3'' = Some pending \<and>
      status_of (snd (run e0 ?c w_ledger)) ''t3'' = Some approved"
    by (auto simp: status_of_def)
  from C2_balance_changes_only_with_approval
         [of e0 ?d w_ledger "fst (run e0 ?d w_ledger)" "snd (run e0 ?d w_ledger)" "''alice''"]
  have "map_option outside_referral (map_of (users (snd (run e0 ?d w_ledger))) ''alice'')
      = map_option outside_referral (map_of (users w_ledger) ''alice'')"
    by auto
  then have d: "map_option outside_referral (map_of (users (snd (run e0 ?d w_ledger))) ''alice'')
      = Some (outside_referral alice)"
    by (simp add: w_ledger_def)
  from b0 b1 a d show ?thesis
    by simp
qed

text \<open>
  The claim as stated says that \<^verbatim>\<open>processDepositReferralAction\<close> updates only the fields
  \<^verbatim>\<open>referralStats\<close> and \<^verbatim>\<open>referredBy\<close>. Its transaction also writes \<^verbatim>\<open>referralProcessedAt\<close>
  of the depositing user: the field is absent before the call and holds the time of the
  call after it.
\<close>

theorem C2_referralProcessedAt_is_written_counterexample:
  "map_option referralProcessedAt (map_of (users w_users) ''bob'') = Some None \<and>
   fst (run e0 (ProcessDepositReferral ''bob'' (Finite 200) (Some ''ABC'')) w_users)
     = OkCommission (Finite 10) \<and>
   map_option referralProcessedAt
     (map_of (users (snd (run e0 (ProcessDepositReferral ''bob'' (Finite 200) (Some ''ABC''))
        w_users))) ''bob'')
     = Some (Some 1000)"
  by (simp add: action_defs request_defs query_defs example_defs five_percent_of_200 Let_def)
subsection \<open>The commission token (C3)\<close>

lemma referrerQuery_single:
  "whereDocs (\<lambda>u. referralCode u = Some code) (users w) = [(r, rd)]
     \<Longrightarrow> referrerQuery code w = [(r, rd)]"
  by (simp add: referrerQuery_def orderByName_def)

lemma referral_commit:
  assumes r: "referrer \<in> fst ` set (users w)" and u: "uid \<in> fst ` set (users w)"
  shows "\<exists>w'. commit [SetToken a t, UpdateUser referrer fs, UpdateUser uid gs] w = Inr w' \<and>
           unifiedTokens w' = AList.update a t (unifiedTokens w) \<and>
           transactions w' = transactions w"
proof -
  from key_exists [OF r] obtain d where d: "map_of (users w) referrer = Some d"
    by blast
  let ?c1 = "AList.update referrer (fold setUserField fs d) (users w)"
  have "uid \<in> fst ` set ?c1"
    using u by (simp add: dom_update)
  from key_exists [OF this] obtain d' where d': "map_of ?c1 uid = Some d'"
    by blast
  show ?thesis
    using d d' by (simp add: updateIn_def)
qed

text \<open>
  Claim C3, as amended. For every deposit amount and every non-empty referral code that
  exactly one user has, when both requests are answered, the document of the depositing
  user exists and the generated id is new, \<^verbatim>\<open>processDepositReferralAction\<close> adds exactly one
  token, owned by the referrer, of type \<^verbatim>\<open>referral_commission\<close>, pending, whose amount is the
  deposit times 0.05 (the product of the two doubles, rounded as every product of doubles
  is), and returns \<^verbatim>\<open>{success: true, commissionAmount}\<close> with that amount.
\<close>

theorem C3_commission_is_five_percent:
  assumes "code \<noteq> []" and "\<not> fault e 0" and "\<not> fault e 1"
    and one: "whereDocs (\<lambda>u. referralCode u = Some code) (users w) = [(referrer, rd)]"
    and "uid \<in> fst ` set (users w)"
    and fresh: "autoId e \<notin> fst ` set (unifiedTokens w)"
  shows "\<exists>w' t. processDepositReferralAction e uid amt (Some code) w
                 = (OkCommission (fmul amt (round64 (5 / 100))), w') \<and>
            unifiedTokens w' = unifiedTokens w @ [(autoId e, t)] \<and>
            userId t = referrer \<and> tokenType t = referral_commission \<and> status t = pending \<and>
            amount t = fmul amt (round64 (5 / 100))"
proof -
  let ?t = "commissionToken e referrer uid amt"
  have "(referrer, rd) \<in> set (users w)"
    using one whereDocs_subset [of "\<lambda>u. referralCode u = Some code" "users w"] by auto
  then have "referrer \<in> fst ` set (users w)"
    by force
  with assms(5) obtain w' where
      c: "commit [SetToken (autoId e) ?t,
                  UpdateUser referrer
                    [Inc_totalCommissions (fmul amt commissionRate),
                     Inc_pendingCommissions (fmul amt commissionRate),
                     Inc_totalReferrals (Finite 1), Set_lastReferralDate (now e)],
                  UpdateUser uid [Set_referredBy referrer, Set_referralProcessedAt (now e)]] w
          = Inr w'"
      and t: "unifiedTokens w' = AList.update (autoId e) ?t (unifiedTokens w)"
    using referral_commit by blast
  have "processDepositReferralAction e uid amt (Some code) w
          = (OkCommission (fmul amt (round64 (5 / 100))), w')"
    using assms(1-3) referrerQuery_single [OF one] c
    by (simp add: processDepositReferralAction_unfold
        getDocs_def runTransaction_def referral_writes_def Let_def commissionRate_def)
  moreover have "unifiedTokens w' = unifiedTokens w @ [(autoId e, ?t)]"
    using t fresh by (simp add: update_fresh)
  moreover have "userId ?t = referrer \<and> tokenType ?t = referral_commission \<and>
      status ?t = pending \<and> amount ?t = fmul amt (round64 (5 / 100))"
    by (simp add: commissionToken_def commissionRate_def)
  ultimately show ?thesis
    by blast
qed

theorem C3_commission_is_five_percent_witness:
  "\<exists>w' t. processDepositReferralAction e0 ''bob'' (Finite 200) (Some ''ABC'') w_users
             = (OkCommission (Finite 10), w') \<and>
      unifiedTokens w' = [(''new'', t)] \<and> userId t = ''alice'' \<and>
      tokenType t = referral_commission \<and> status t = pending \<and>
      amount t = Finite 10"
proof -
  have h: "''ABC'' \<noteq> []" "\<not> fault e0 0" "\<not> fault e0 1"
      "whereDocs (\<lambda>u. referralCode u = Some ''ABC'') (users w_users) = [(''alice'', alice)]"
      "''bob'' \<in> fst ` set (users w_users)"
      "autoId e0 \<notin> fst ` set (unifiedTokens w_users)"
    by (simp_all add: example_defs whereDocs_def)
  have "autoId e0 = ''new''" "unifiedTokens w_users = []"
    by (simp_all add: example_defs)
  with C3_commission_is_five_percent [OF h, of "Finite 200"] show ?thesis
    unfolding commissionRate_def [symmetric] five_percent_of_200 by simp
qed

text \<open>
  The claim as stated fails: the code matches exactly one user, every request is answered,
  but the depositing user has no document, so the update of that document fails the
  transaction; the call returns the error of the \<^verbatim>\<open>catch\<close> block and creates no token.
\<close>

theorem C3_missing_depositor_counterexample:
  "whereDocs (\<lambda>u. referralCode u = Some ''ABC'') (users w_alice) = [(''alice'', alice)] \<and>
   fault e0 = (\<lambda>k. False) \<and>
   processDepositReferralAction e0 ''bob'' (Finite 200) (Some ''ABC'') w_alice
     = (Failure msg_referral, w_alice)"
  by (simp add: processDepositReferralAction_unfold
      referrerQuery_def referral_writes_def request_defs query_defs example_defs Let_def)

subsection \<open>Failures are returned, not thrown (C4)\<close>



subsection \<open>A processed token is not processed again (C5)\<close>



subsection \<open>Sweeping expired tokens (C6)\<close>

text \<open>
  Claim C6. In a database whose document ids are unique, and with both requests answered,
  \<^verbatim>\<open>cleanupExpiredTokensAction\<close> deletes no document (the ids of the tokens, and the other
  collections, are as before). The tokens it selects are pending tokens whose \<^verbatim>\<open>expiresAt\<close>
  is at or before the current time: all of them when there are at most 100, and 100 of
  them otherwise. Each selected token gets \<^verbatim>\<open>status: 'expired'\<close> and \<^verbatim>\<open>expiredAt\<close> set to the
  current time, every other token is untouched, and the call returns \<^verbatim>\<open>{success: true,
  deletedCount}\<close> with the number of selected tokens (0 when there are none).
\<close>

theorem C6_cleanup_marks_and_counts:
  assumes wf: "wf_world w" and nf: "\<not> fault e 0" "\<not> fault e 1"
  shows "\<exists>w'. cleanupExpiredTokensAction e w
               = (OkDeleted (length (expiredQuery (now e) w)), w') \<and>
     map fst (unifiedTokens w') = map fst (unifiedTokens w) \<and>
     users w' = users w \<and> transactions w' = transactions w \<and>
     (\<forall>(i, t) \<in> set (unifiedTokens w).
        map_of (unifiedTokens w') i =
          Some (if (i, t) \<in> set (expiredQuery (now e) w)
                then t\<lparr>status := expired, expiredAt := Some (now e)\<rparr> else t)) \<and>
     set (expiredQuery (now e) w)
       \<subseteq> {(i, t) \<in> set (unifiedTokens w).
            status t = pending \<and> (\<exists>x. expiresAt t = Some x \<and> x \<le> now e)} \<and>
     (length (whereDocs (is_expired (now e)) (unifiedTokens w)) \<le> 100 \<longrightarrow>
        set (expiredQuery (now e) w)
          = {(i, t) \<in> set (unifiedTokens w).
               status t = pending \<and> (\<exists>x. expiresAt t = Some x \<and> x \<le> now e)}) \<and>
     length (expiredQuery (now e) w)
       = min 100 (length (whereDocs (is_expired (now e)) (unifiedTokens w))) \<and>
     distinct (map fst (expiredQuery (now e) w))"
proof -
  let ?D = "expiredQuery (now e) w"
  let ?M = "{(i, t) \<in> set (unifiedTokens w).
              status t = pending \<and> (\<exists>x. expiresAt t = Some x \<and> x \<le> now e)}"
  have dist: "distinct (map fst (unifiedTokens w))"
    using wf by (simp add: wf_world_def)
  have M: "set (whereDocs (is_expired (now e)) (unifiedTokens w)) = ?M"
    by (simp add: whereDocs_set is_expired_iff)
  have sub: "set ?D \<subseteq> ?M"
    using expiredQuery_subset [of "now e" w] M by simp
  then have sub': "set ?D \<subseteq> set (unifiedTokens w)"
    by auto
  then have keys: "fst ` set ?D \<subseteq> fst ` set (unifiedTokens w)"
    by auto
  from commit_marks [OF keys, of "now e"] obtain w1 where
      c: "commit (map (\<lambda>(i, t). UpdateToken i [Set_status expired, Set_expiredAt (now e)]) ?D) w
            = Inr w1"
      and f: "users w1 = users w" "transactions w1 = transactions w"
        "map fst (unifiedTokens w1) = map fst (unifiedTokens w)"
      and m: "\<And>j. map_of (unifiedTokens w1) j =
              (if j \<in> fst ` set ?D
               then map_option (mark_expired (now e)) (map_of (unifiedTokens w) j)
               else map_of (unifiedTokens w) j)"
    by blast
  define w' where "w' = (if ?D = [] then w else w1)"
  have res: "cleanupExpiredTokensAction e w = (OkDeleted (length ?D), w')"
    using nf c by (simp add: cleanupExpiredTokensAction_unfold getDocs_def batchCommit_def w'_def)
  have frame: "map fst (unifiedTokens w') = map fst (unifiedTokens w)"
      "users w' = users w" "transactions w' = transactions w"
    using f by (simp_all add: w'_def)
  have m': "\<And>j. map_of (unifiedTokens w') j =
              (if j \<in> fst ` set ?D
               then map_option (mark_expired (now e)) (map_of (unifiedTokens w) j)
               else map_of (unifiedTokens w) j)"
    using m by (simp add: w'_def)
  have marks: "\<forall>(i, t) \<in> set (unifiedTokens w).
        map_of (unifiedTokens w') i =
          Some (if (i, t) \<in> set ?D
                then t\<lparr>status := expired, expiredAt := Some (now e)\<rparr> else t)"
  proof (clarify)
    fix i t
    assume it: "(i, t) \<in> set (unifiedTokens w)"
    with dist have look: "map_of (unifiedTokens w) i = Some t"
      by simp
    from distinct_key_member [OF dist it sub']
    have "i \<in> fst ` set ?D \<longleftrightarrow> (i, t) \<in> set ?D" .
    then show "map_of (unifiedTokens w') i =
          Some (if (i, t) \<in> set ?D
                then t\<lparr>status := expired, expiredAt := Some (now e)\<rparr> else t)"
      by (simp add: m' look mark_expired_def)
  qed
  have full: "length (whereDocs (is_expired (now e)) (unifiedTokens w)) \<le> 100 \<longrightarrow> set ?D = ?M"
    using expiredQuery_all [of "now e" w] M by simp
  from res frame marks sub full expiredQuery_length [of "now e" w]
    expiredQuery_distinct [OF dist, of "now e"]
  show ?thesis
    by blast
qed

lemma expiredQuery_ledger:
  "expiredQuery 1000 w_ledger =
     [(''t1'', token0 ''alice'' deposit pending 10),
      (''t3'', token0 ''alice'' referral_commission pending 30),
      (''t4'', token0 ''bob'' raffle_entry pending 40)]"
  by (simp add: expiredQuery_def is_expired_def query_defs example_defs less_eq_prod_def)

theorem C6_cleanup_marks_and_counts_witness:
  "\<exists>w'. cleanupExpiredTokensAction e0 w_ledger = (OkDeleted 3, w') \<and>
     map fst (unifiedTokens w') = [''t1'', ''t2'', ''t3'', ''t4''] \<and>
     users w' = users w_ledger \<and>
     map_of (unifiedTokens w') ''t1''
       = Some ((token0 ''alice'' deposit pending 10)\<lparr>status := expired, expiredAt := Some 1000\<rparr>) \<and>
     map_of (unifiedTokens w') ''t2'' = Some (token0 ''alice'' deposit approved 20)"
proof -
  have h: "wf_world w_ledger" "\<not> fault e0 0" "\<not> fault e0 1"
    by (simp_all add: wf_world_def example_defs)
  have n: "now e0 = 1000"
    by (simp add: e0_def)
  have t: "unifiedTokens w_ledger =
       [(''t1'', token0 ''alice'' deposit pending 10),
        (''t2'', token0 ''alice'' deposit approved 20),
        (''t3'', token0 ''alice'' referral_commission pending 30),
        (''t4'', token0 ''bob'' raffle_entry pending 40)]"
    by (simp add: w_ledger_def)
  from C6_cleanup_marks_and_counts [OF h] obtain w' where
      r: "cleanupExpiredTokensAction e0 w_ledger
            = (OkDeleted (length (expiredQuery (now e0) w_ledger)), w')"
      and k: "map fst (unifiedTokens w') = map fst (unifiedTokens w_ledger)"
      and u: "users w' = users w_ledger"
      and m: "\<forall>(i, t) \<in> set (unifiedTokens w_ledger).
        map_of (unifiedTokens w') i =
          Some (if (i, t) \<in> set (expiredQuery (now e0) w_ledger)
                then t\<lparr>status := expired, expiredAt := Some (now e0)\<rparr> else t)"
    by blast
  from m have "map_of (unifiedTokens w') ''t1''
       = Some ((token0 ''alice'' deposit pending 10)\<lparr>status := expired, expiredAt := Some 1000\<rparr>) \<and>
     map_of (unifiedTokens w') ''t2'' = Some (token0 ''alice'' deposit approved 20)"
    unfolding n expiredQuery_ledger t by (simp add: token0_def)
  with r k u show ?thesis
    unfolding n expiredQuery_ledger t by auto
qed

subsection \<open>What an approval does to the balance (C7)\<close>

lemma approve_writes_unbound:
  "tokenType t \<noteq> raffle_entry \<Longrightarrow>
     approve_writes unifiedTokenActions_imports e tid admin notes t
       = Inl (ReferenceError ''increment'')"
  by (cases "tokenType t") (simp_all add: approve_writes_def Let_def)

lemma approveTokenAction_unbound_increment:
  assumes "map_of (unifiedTokens w) tid = Some t" and "status t = pending"
    and "tokenType t \<noteq> raffle_entry" and "\<not> fault e 0"
  shows "approveTokenAction e tid admin notes w = (Failure msg_approve, w)"
  using assms
  by (simp add: approveTokenAction_def approveTokenAction_in_unfold
      getDoc_def runTransaction_def approve_writes_unbound)

text \<open>
  Had the module imported \<^verbatim>\<open>increment\<close>, the approval would do what the \<^verbatim>\<open>switch\<close> is
  written to do: the four credited types add the amount to the balance and to the total of
  the type, a withdrawal subtracts it from the balance and adds it to \<^verbatim>\<open>withdrawalTotal\<close>, and
  a raffle entry leaves the owner as it is (the sums are those of \<open>incremented\<close>, in double
  arithmetic).
\<close>

lemma approve_writes_imported:
  assumes "''increment'' \<in> set scope"
  shows "approve_writes scope e tid admin n t =
     Inr (if tokenType t = raffle_entry then [UpdateToken tid (approval_fields e admin n)]
          else [UpdateToken tid (approval_fields e admin n),
                UpdateUser (userId t)
                  [Inc_balance (if tokenType t = withdrawal then fneg (amount t) else amount t),
                   Inc_typeTotal (tokenType t) (amount t)]])"
  using assms
  by (cases "tokenType t") (simp_all add: approve_writes_def Let_def increment_def approval_fields_def)

lemma approveTokenAction_with_increment:
  assumes imp: "''increment'' \<in> set scope"
    and t: "map_of (unifiedTokens w) tid = Some t" "status t = pending"
    and u: "map_of (users w) (userId t) = Some u"
    and nf: "\<not> fault e 0" "\<not> fault e 1"
  shows "\<exists>w' u'. approveTokenAction_in scope e tid admin n w = (Ok, w') \<and>
     status_of w' tid = Some approved \<and> map_of (users w') (userId t) = Some u' \<and>
     (tokenType t = raffle_entry \<longrightarrow> u' = u) \<and>
     (tokenType t = withdrawal \<longrightarrow>
        balance u' = incremented (fneg (amount t)) (balance u) \<and>
        typeTotal u' withdrawal = incremented (amount t) (typeTotal u withdrawal)) \<and>
     (tokenType t \<in> {deposit, bonus, referral_commission, cashback} \<longrightarrow>
        balance u' = incremented (amount t) (balance u) \<and>
        typeTotal u' (tokenType t) = incremented (amount t) (typeTotal u (tokenType t)))"
proof (cases "tokenType t = raffle_entry")
  case True
  with imp t u nf show ?thesis
    by (simp add: approveTokenAction_in_unfold getDoc_def runTransaction_def
        approve_writes_imported updateIn_def status_of_def update_conv')
next
  case False
  with imp t u nf show ?thesis
    by (simp add: approveTokenAction_in_unfold getDoc_def runTransaction_def
        approve_writes_imported updateIn_def status_of_def update_conv')
qed

text \<open>
  Claim C7 says that approving a pending deposit adds its amount to the balance of the
  owner. \<^verbatim>\<open>unifiedTokenActions.ts\<close> calls \<^verbatim>\<open>increment\<close> without importing it, so the callback
  of the transaction throws for every type but \<^verbatim>\<open>raffle_entry\<close>: the approval of a pending
  deposit of 100 returns \<^verbatim>\<open>{success: false, error: 'Token onaylanamadi'}\<close> (the string
  \<open>msg_approve\<close>), the token stays pending and the balance stays 50.
\<close>

theorem C7_deposit_approval_fails:
  "map_of (unifiedTokens w_deposit) ''t1'' = Some (token0 ''alice'' deposit pending 10) \<and>
   approveTokenAction e0 ''t1'' ''admin'' None w_deposit = (Failure msg_approve, w_deposit)"
  by (simp add: approveTokenAction_def approveTokenAction_in_unfold
      approve_writes_def request_defs example_defs Let_def)

subsection \<open>Listing the tokens of a user (C8)\<close>

text \<open>
  Claim C8. When \<^verbatim>\<open>getUserUnifiedTokensAction\<close> is given both a type and a status, it returns
  what it returns for the status alone: the query built for the status replaces the one
  built for the type. With the request answered and a positive limit, the tokens returned
  are tokens of the user with that status, of any type; there are as many as match, up to
  the limit (all of them when they fit); and they come newest first.
\<close>

theorem C8_status_filter_replaces_type_filter:
  "getUserUnifiedTokensAction e uid (Some ty) (Some st) n w
     = getUserUnifiedTokensAction e uid None (Some st) n w \<and>
   (\<not> fault e 0 \<and> 0 < limit_of n \<longrightarrow>
      (\<exists>tokens. getUserUnifiedTokensAction e uid (Some ty) (Some st) n w = (OkTokens tokens, w) \<and>
         set tokens \<subseteq> {(i, t) \<in> set (unifiedTokens w). userId t = uid \<and> status t = st} \<and>
         length tokens
           = min (nat (limit_of n))
               (length (filter (\<lambda>(i, t). userId t = uid \<and> status t = st) (unifiedTokens w))) \<and>
         (length (filter (\<lambda>(i, t). userId t = uid \<and> status t = st) (unifiedTokens w))
            \<le> nat (limit_of n) \<longrightarrow>
          set tokens = {(i, t) \<in> set (unifiedTokens w). userId t = uid \<and> status t = st}) \<and>
         newest_first tokens))"
proof (rule conjI)
  show "getUserUnifiedTokensAction e uid (Some ty) (Some st) n w
     = getUserUnifiedTokensAction e uid None (Some st) n w"
    by (rule type_filter_discarded)
next
  let ?F = "filter (\<lambda>(i, t). userId t = uid \<and> status t = st) (unifiedTokens w)"
  let ?T = "take (nat (limit_of n)) (orderByDesc createdAt ?F)"
  show "\<not> fault e 0 \<and> 0 < limit_of n \<longrightarrow>
      (\<exists>tokens. getUserUnifiedTokensAction e uid (Some ty) (Some st) n w = (OkTokens tokens, w) \<and>
         set tokens \<subseteq> {(i, t) \<in> set (unifiedTokens w). userId t = uid \<and> status t = st} \<and>
         length tokens = min (nat (limit_of n)) (length ?F) \<and>
         (length ?F \<le> nat (limit_of n) \<longrightarrow>
          set tokens = {(i, t) \<in> set (unifiedTokens w). userId t = uid \<and> status t = st}) \<and>
         newest_first tokens)"
  proof (rule impI)
    assume h: "\<not> fault e 0 \<and> 0 < limit_of n"
    then have r: "getUserUnifiedTokensAction e uid (Some ty) (Some st) n w = (OkTokens ?T, w)"
      by (simp add: status_query_result whereDocs_twice)
    have s: "set ?T \<subseteq> {(i, t) \<in> set (unifiedTokens w). userId t = uid \<and> status t = st}"
      by (auto dest: in_set_takeD)
    have l: "length ?T = min (nat (limit_of n)) (length ?F)"
      by simp
    have a: "length ?F \<le> nat (limit_of n) \<longrightarrow>
        set ?T = {(i, t) \<in> set (unifiedTokens w). userId t = uid \<and> status t = st}"
      by auto
    have o: "newest_first ?T"
      unfolding newest_first_def by (rule sorted_wrt_take) (rule orderByDesc_sorted)
    from r s l a o show "\<exists>tokens.
         getUserUnifiedTokensAction e uid (Some ty) (Some st) n w = (OkTokens tokens, w) \<and>
         set tokens \<subseteq> {(i, t) \<in> set (unifiedTokens w). userId t = uid \<and> status t = st} \<and>
         length tokens = min (nat (limit_of n)) (length ?F) \<and>
         (length ?F \<le> nat (limit_of n) \<longrightarrow>
          set tokens = {(i, t) \<in> set (unifiedTokens w). userId t = uid \<and> status t = st}) \<and>
         newest_first tokens"
      by blast
  qed
qed

lemma pending_of_alice:
  "getUserUnifiedTokensAction e0 ''alice'' None (Some pending) None w_ledger
     = (OkTokens [(''t3'', token0 ''alice'' referral_commission pending 30),
                  (''t1'', token0 ''alice'' deposit pending 10)], w_ledger)"
  by (simp add: getUserUnifiedTokensAction_unfold Let_def getDocs_def query_defs example_defs
      less_eq_prod_def)

theorem C8_status_filter_replaces_type_filter_witness:
  "getUserUnifiedTokensAction e0 ''alice'' (Some withdrawal) (Some pending) None w_ledger
     = (OkTokens [(''t3'', token0 ''alice'' referral_commission pending 30),
                  (''t1'', token0 ''alice'' deposit pending 10)], w_ledger) \<and>
   newest_first [(''t3'', token0 ''alice'' referral_commission pending 30),
                 (''t1'', token0 ''alice'' deposit pending 10)]"
proof -
  have h: "\<not> fault e0 0 \<and> 0 < limit_of None"
    by (simp add: e0_def limit_of_def)
  from C8_status_filter_replaces_type_filter [of e0 "''alice''" withdrawal pending None w_ledger]
    h pending_of_alice
  show ?thesis
    by auto
qed

subsection \<open>The referral statistics and their invariant (C9)\<close>

text \<open>
  Claim C9, as amended. A successful \<^verbatim>\<open>processDepositReferralAction\<close> adds the commission
  (the deposit times 0.05, rounded) to \<^verbatim>\<open>totalCommissions\<close> and to \<^verbatim>\<open>pendingCommissions\<close> of
  the referrer and to nothing else; a successful \<^verbatim>\<open>approveReferralCommissionAction\<close> adds
  the amount of the token to \<^verbatim>\<open>approvedCommissions\<close> of its owner and the negated amount to
  \<^verbatim>\<open>pendingCommissions\<close>; when either fails the state is unchanged; and no other operation
  changes \<^verbatim>\<open>referralStats\<close> of any user. Each addition is the rounded sum of two doubles
  (\<open>incremented\<close>). The invariant
  \<^verbatim>\<open>totalCommissions = pendingCommissions + approvedCommissions\<close>, when it holds of every user
  before a call, holds of every user after it provided the additions of the call round
  nothing (\<open>exact_step\<close>).
\<close>

theorem C9_commission_statistics_stay_balanced:
  assumes "run e c w = (r, w')"
  shows "(all_users stats_balanced w \<and> exact_step c w \<longrightarrow> all_users stats_balanced w') \<and>
     (c = ProcessDepositReferral uid amt code \<and> r = OkCommission a \<longrightarrow>
        a = fmul amt commissionRate \<and>
        (\<exists>ref rd cd. code = Some cd \<and> referrerQuery cd w = [(ref, rd)] \<and>
           (\<forall>j. commissions_of w' j =
              (if j = ref
               then map_option (\<lambda>(t, p, ap). (incremented a t, incremented a p, ap))
                      (commissions_of w j)
               else commissions_of w j)))) \<and>
     (c = ApproveReferralCommission tid admin \<and> r = Ok \<longrightarrow>
        (\<exists>t. map_of (unifiedTokens w) tid = Some t \<and>
           (\<forall>j. commissions_of w' j =
              (if j = userId t
               then map_option
                      (\<lambda>(t0, p, ap).
                         (t0, incremented (fneg (amount t)) p, incremented (amount t) ap))
                      (commissions_of w j)
               else commissions_of w j)))) \<and>
     ((c = ProcessDepositReferral uid amt code \<and> (\<forall>a. r \<noteq> OkCommission a)) \<or>
      (c = ApproveReferralCommission tid admin \<and> r \<noteq> Ok) \<longrightarrow> w' = w) \<and>
     ((\<forall>uid amt code. c \<noteq> ProcessDepositReferral uid amt code) \<and>
      (\<forall>tid a. c \<noteq> ApproveReferralCommission tid a) \<longrightarrow>
        map_option referralStats (map_of (users w') j)
          = map_option referralStats (map_of (users w) j))"
proof -
  have 1: "all_users stats_balanced w \<and> exact_step c w \<longrightarrow> all_users stats_balanced w'"
    using run_stats_balanced [OF assms] by blast
  have 2: "c = ProcessDepositReferral uid amt code \<and> r = OkCommission a \<longrightarrow>
        a = fmul amt commissionRate \<and>
        (\<exists>ref rd cd. code = Some cd \<and> referrerQuery cd w = [(ref, rd)] \<and>
           (\<forall>j. commissions_of w' j =
              (if j = ref
               then map_option (\<lambda>(t, p, ap). (incremented a t, incremented a p, ap))
                      (commissions_of w j)
               else commissions_of w j)))"
  proof (rule impI)
    assume h: "c = ProcessDepositReferral uid amt code \<and> r = OkCommission a"
    with assms have "processDepositReferralAction e uid amt code w = (OkCommission a, w')"
      by simp
    then show "a = fmul amt commissionRate \<and>
        (\<exists>ref rd cd. code = Some cd \<and> referrerQuery cd w = [(ref, rd)] \<and>
           (\<forall>j. commissions_of w' j =
              (if j = ref
               then map_option (\<lambda>(t, p, ap). (incremented a t, incremented a p, ap))
                      (commissions_of w j)
               else commissions_of w j)))"
      by (rule processDeposit_commissions)
  qed
  have 3: "c = ApproveReferralCommission tid admin \<and> r = Ok \<longrightarrow>
        (\<exists>t. map_of (unifiedTokens w) tid = Some t \<and>
           (\<forall>j. commissions_of w' j =
              (if j = userId t
               then map_option
                      (\<lambda>(t0, p, ap).
                         (t0, incremented (fneg (amount t)) p, incremented (amount t) ap))
                      (commissions_of w j)
               else commissions_of w j)))"
  proof (rule impI)
    assume h: "c = ApproveReferralCommission tid admin \<and> r = Ok"
    with assms have "approveReferralCommissionAction e tid admin w = (Ok, w')"
      by simp
    then show "\<exists>t. map_of (unifiedTokens w) tid = Some t \<and>
           (\<forall>j. commissions_of w' j =
              (if j = userId t
               then map_option
                      (\<lambda>(t0, p, ap).
                         (t0, incremented (fneg (amount t)) p, incremented (amount t) ap))
                      (commissions_of w j)
               else commissions_of w j))"
      by (rule approveReferralCommission_commissions)
  qed
  have 4: "(c = ProcessDepositReferral uid amt code \<and> (\<forall>a. r \<noteq> OkCommission a)) \<or>
      (c = ApproveReferralCommission tid admin \<and> r \<noteq> Ok) \<longrightarrow> w' = w"
    using assms processDeposit_not_commission [of e uid amt code w r w']
      approveReferralCommission_not_Ok [of e tid admin w r w'] by auto
  have 5: "(\<forall>uid amt code. c \<noteq> ProcessDepositReferral uid amt code) \<and>
      (\<forall>tid a. c \<noteq> ApproveReferralCommission tid a) \<longrightarrow>
        map_option referralStats (map_of (users w') j)
          = map_option referralStats (map_of (users w) j)"
    using run_referralStats [OF assms] by blast
  from 1 2 3 4 5 show ?thesis
    by (intro conjI)
qed

lemma w_referred_eval:
  "run e0 (ProcessDepositReferral ''bob'' (Finite 200) (Some ''ABC'')) w_ledger
     = (OkCommission (Finite 10), w_referred)"
  by (simp add: w_referred_def action_defs request_defs query_defs example_defs
      five_percent_of_200 Let_def)

lemma w_referred_token:
  "map_of (unifiedTokens w_referred) ''new''
     = Some (commissionToken e0 ''alice'' ''bob'' (Finite 200))"
  by (simp add: w_referred_def action_defs request_defs query_defs example_defs
      five_percent_of_200 Let_def)

theorem C9_commission_statistics_stay_balanced_witness:
  "all_users stats_balanced w_ledger \<and>
   exact_step (ProcessDepositReferral ''bob'' (Finite 200) (Some ''ABC'')) w_ledger \<and>
   all_users stats_balanced w_referred \<and>
   commissions_of w_ledger ''alice'' = Some (None, None, None) \<and>
   commissions_of w_referred ''alice'' = Some (Some (Finite 10), Some (Finite 10), None) \<and>
   commissions_of w_referred ''bob'' = commissions_of w_ledger ''bob'' \<and>
   commissions_of (snd (run e0 (ApproveReferralCommission ''new'' ''admin'') w_referred)) ''alice''
     = Some (Some (Finite 10), Some (Finite 0), Some (Finite 10)) \<and>
   map_option referralStats
     (map_of (users (snd (run e0 (RejectToken ''t1'' ''admin'' ''no'') w_ledger))) ''alice'')
     = Some None"
proof -
  let ?dep = "ProcessDepositReferral ''bob'' (Finite 200) (Some ''ABC'')"
  let ?app = "ApproveReferralCommission ''new'' ''admin''"
  let ?rej = "RejectToken ''t1'' ''admin'' ''no''"
  have inv0: "all_users stats_balanced w_ledger"
    by (simp add: all_users_def stats_balanced_def value_of_def stats_of_def no_stats_def
        example_defs)
  have c0: "commissions_of w_ledger ''alice'' = Some (None, None, None)"
    by (simp add: commissions_of_def commissions_def stats_of_def no_stats_def example_defs)
  have q: "referrerQuery ''ABC'' w_ledger = [(''alice'', alice)]"
    by (simp add: referrerQuery_def query_defs example_defs)
  have u0: "map_of (users w_ledger) ''alice'' = Some alice"
    by (simp add: w_ledger_def)
  have ex0: "exact_step ?dep w_ledger"
    unfolding exact_step_def
    by (simp add: q u0 five_percent_of_200 exact_increment_def value_of_def incremented_def
        stats_of_def no_stats_def alice_def)
  from C9_commission_statistics_stay_balanced
         [OF w_referred_eval, of "''bob''" "Finite 200" "Some ''ABC''" "Finite 10"] inv0 ex0 q
  have d: "all_users stats_balanced w_referred \<and>
      (\<forall>j. commissions_of w_referred j =
         (if j = ''alice''
          then map_option
                 (\<lambda>(t, p, ap). (incremented (Finite 10) t, incremented (Finite 10) p, ap))
                 (commissions_of w_ledger j)
          else commissions_of w_ledger j))"
    by auto
  then have c1: "commissions_of w_referred ''alice''
        = Some (Some (Finite 10), Some (Finite 10), None)"
      and c1': "commissions_of w_referred ''bob'' = commissions_of w_ledger ''bob''"
    by (simp_all add: c0 incremented_def)
  have ok: "run e0 ?app w_referred = (Ok, snd (run e0 ?app w_referred))"
    by (simp add: w_referred_def action_defs request_defs query_defs example_defs
        five_percent_of_200 Let_def)
  from C9_commission_statistics_stay_balanced [OF ok, of _ _ _ _ "''new''" "''admin''"]
    w_referred_token
  have "\<forall>j. commissions_of (snd (run e0 ?app w_referred)) j =
      (if j = userId (commissionToken e0 ''alice'' ''bob'' (Finite 200))
       then map_option
              (\<lambda>(t0, p, ap).
                 (t0, incremented (fneg (amount (commissionToken e0 ''alice'' ''bob'' (Finite 200)))) p,
                  incremented (amount (commissionToken e0 ''alice'' ''bob'' (Finite 200))) ap))
              (commissions_of w_referred j)
       else commissions_of w_referred j)"
    by auto
  then have c2: "commissions_of (snd (run e0 ?app w_referred)) ''alice''
      = Some (Some (Finite 10), Some (Finite 0), Some (Finite 10))"
    by (simp add: c1 commissionToken_def five_percent_of_200 incremented_def)
  from C9_commission_statistics_stay_balanced
         [of e0 ?rej w_ledger "fst (run e0 ?rej w_ledger)" "snd (run e0 ?rej w_ledger)"
            _ _ _ _ _ _ "''alice''"]
  have "map_option referralStats (map_of (users (snd (run e0 ?rej w_ledger))) ''alice'')
      = map_option referralStats (map_of (users w_ledger) ''alice'')"
    by simp
  then have c3: "map_option referralStats
      (map_of (users (snd (run e0 ?rej w_ledger))) ''alice'') = Some None"
    by (simp add: example_defs)
  from inv0 ex0 d c0 c1 c1' c2 c3 show ?thesis
    by blast
qed

text \<open>
  The claim as stated fails: the sums are doubles, and an addition that rounds breaks the
  equality. Two deposits of 2 and of 3 earn the commissions 0.1 and 0.15000000000000002;
  after both are processed and the first is approved the statistics of the referrer are
  balanced (\<open>w_rounding\<close>: total 0.25, pending 0.15, approved 0.1, each the exact double).
  Approving the second commission leaves total 0.25, pending \<open>- 1 / 2 ^ 55\<close> and approved
  0.25: the pending sum is exact, the approved sum is rounded to even.
\<close>

theorem C9_rounding_breaks_balance_counterexample:
  "snd (run e0 (ApproveReferralCommission ''new'' ''admin'')
     (snd (run e1 (ProcessDepositReferral ''bob'' (Finite 3) (Some ''ABC''))
        (snd (run e0 (ProcessDepositReferral ''bob'' (Finite 2) (Some ''ABC'')) w_users)))))
     = w_rounding \<and>
   all_users stats_balanced w_rounding \<and>
   fst (run e0 (ApproveReferralCommission ''new1'' ''admin'') w_rounding) = Ok \<and>
   commissions_of (snd (run e0 (ApproveReferralCommission ''new1'' ''admin'') w_rounding))
     ''alice''
     = Some (Some (Finite (1 / 4)), Some (Finite (- (1 / 36028797018963968))),
             Some (Finite (1 / 4))) \<and>
   \<not> all_users stats_balanced
       (snd (run e0 (ApproveReferralCommission ''new1'' ''admin'') w_rounding))"
proof -
  have reach: "snd (run e0 (ApproveReferralCommission ''new'' ''admin'')
     (snd (run e1 (ProcessDepositReferral ''bob'' (Finite 3) (Some ''ABC''))
        (snd (run e0 (ProcessDepositReferral ''bob'' (Finite 2) (Some ''ABC'')) w_users)))))
     = w_rounding"
    by (simp add: w_rounding_def e1_def action_defs request_defs query_defs example_defs
        no_stats_def stats_of_def incremented_def commissionRate_value round64_eval)
  have b3: "all_users stats_balanced w_rounding"
    by (simp add: w_rounding_def all_users_def stats_balanced_def value_of_def stats_of_def
        no_stats_def example_defs)
  have r4: "fst (run e0 (ApproveReferralCommission ''new1'' ''admin'') w_rounding) = Ok"
    by (simp add: w_rounding_def e1_def action_defs request_defs query_defs example_defs)
  have w4: "commissions_of
      (snd (run e0 (ApproveReferralCommission ''new1'' ''admin'') w_rounding)) ''alice''
      = Some (Some (Finite (1 / 4)), Some (Finite (- (1 / 36028797018963968))),
              Some (Finite (1 / 4)))"
    by (simp add: w_rounding_def e1_def action_defs request_defs query_defs example_defs
        commissions_of_def commissions_def stats_of_def no_stats_def incremented_def
        commissionRate_value round64_eval)
  have b4: "\<not> all_users stats_balanced
      (snd (run e0 (ApproveReferralCommission ''new1'' ''admin'') w_rounding))"
    by (simp add: w_rounding_def e1_def action_defs request_defs query_defs example_defs
        all_users_def stats_balanced_def value_of_def stats_of_def no_stats_def
        incremented_def commissionRate_value round64_eval)
  from reach b3 r4 w4 b4 show ?thesis
    by (intro conjI)
qed
subsection \<open>Referral processing without a referrer (C10)\<close>

lemma referrerQuery_empty:
  "referrerQuery code w = [] \<longleftrightarrow> (\<forall>(i, u) \<in> set (users w). referralCode u \<noteq> Some code)"
proof -
  have "referrerQuery code w = [] \<longleftrightarrow> whereDocs (\<lambda>u. referralCode u = Some code) (users w) = []"
    by (cases "whereDocs (\<lambda>u. referralCode u = Some code) (users w)")
       (auto simp: referrerQuery_def orderByName_def insort_is_Cons take_Suc_conv_app_nth)
  then show ?thesis by (simp add: whereDocs_empty)
qed

text \<open>
  Claim C10. \<^verbatim>\<open>processDepositReferralAction\<close> called without a referral code (absent, or the
  empty string) returns \<^verbatim>\<open>{success: true}\<close> whatever the database holds and whatever requests
  would fail: it reads and writes nothing. Called with a code that no user has, and with
  the lookup answered, it returns \<^verbatim>\<open>{success: false, error: 'Gecersiz referral kodu'}\<close> (the
  string \<open>msg_invalid_referral\<close>) and the state is unchanged. Whenever the state changes,
  a referrer was found and the change is the commit of the one transaction, and the call
  returns the commission.
\<close>

theorem C10_without_referrer:
  "processDepositReferralAction e uid amt None w = (Ok, w) \<and>
   processDepositReferralAction e uid amt (Some []) w = (Ok, w) \<and>
   (code \<noteq> [] \<and> \<not> fault e 0 \<and> (\<forall>(i, u) \<in> set (users w). referralCode u \<noteq> Some code) \<longrightarrow>
      processDepositReferralAction e uid amt (Some code) w = (Failure msg_invalid_referral, w)) \<and>
   (snd (processDepositReferralAction e uid amt rc w) \<noteq> w \<longrightarrow>
      (\<exists>c r rd ws. rc = Some c \<and> referrerQuery c w = [(r, rd)] \<and>
         referral_writes referralActions_imports e r uid amt = Inr ws \<and>
         commit ws w = Inr (snd (processDepositReferralAction e uid amt rc w)) \<and>
         fst (processDepositReferralAction e uid amt rc w) = OkCommission (fmul amt commissionRate)))"
proof (intro conjI impI)
  show "processDepositReferralAction e uid amt None w = (Ok, w)"
    by (simp add: processDepositReferralAction_unfold)
  show "processDepositReferralAction e uid amt (Some []) w = (Ok, w)"
    by (simp add: processDepositReferralAction_unfold)
next
  assume a: "code \<noteq> [] \<and> \<not> fault e 0 \<and> (\<forall>(i, u) \<in> set (users w). referralCode u \<noteq> Some code)"
  then have "referrerQuery code w = []"
    by (simp add: referrerQuery_empty)
  with a show "processDepositReferralAction e uid amt (Some code) w = (Failure msg_invalid_referral, w)"
    by (simp add: processDepositReferralAction_unfold getDocs_def)
next
  let ?p = "processDepositReferralAction e uid amt rc w"
  assume ch: "snd ?p \<noteq> w"
  then obtain c where rc: "rc = Some c" and c: "c \<noteq> []"
    by (cases rc) (auto simp: processDepositReferralAction_unfold split: if_splits)
  from ch rc c have nf: "\<not> fault e 0"
    by (auto simp: processDepositReferralAction_unfold getDocs_def split: if_splits)
  have len: "length (referrerQuery c w) \<le> 1"
    by (simp add: referrerQuery_def)
  from ch rc c nf obtain r rd where q: "referrerQuery c w = [(r, rd)]"
    using len by (cases "referrerQuery c w")
      (auto simp: processDepositReferralAction_unfold getDocs_def)
  obtain res w' where rt: "runTransaction e 1 (referral_writes referralActions_imports e r uid amt) w = (res, w')"
    by (cases "runTransaction e 1 (referral_writes referralActions_imports e r uid amt) w")
  have p: "?p = try_catch msg_referral (case (res, w') of (Inl x, w') \<Rightarrow> (Inl x, w')
        | (Inr u, w') \<Rightarrow> (Inr (OkCommission (fmul amt commissionRate)), w'))"
    using rc c nf q rt by (simp add: processDepositReferralAction_unfold getDocs_def)
  then have sw: "snd ?p = w'"
    by (cases res) auto
  from runTransaction_cases [OF rt] ch sw obtain ws where
      "res = Inr ()" "referral_writes referralActions_imports e r uid amt = Inr ws" "commit ws w = Inr w'"
    by auto
  with p sw rc q show "\<exists>c r rd ws. rc = Some c \<and> referrerQuery c w = [(r, rd)] \<and>
         referral_writes referralActions_imports e r uid amt = Inr ws \<and>
         commit ws w = Inr (snd ?p) \<and> fst ?p = OkCommission (fmul amt commissionRate)"
    by auto
qed

theorem C10_without_referrer_witness:
  "processDepositReferralAction e0 ''bob'' (Finite 100) None w_users = (Ok, w_users) \<and>
   processDepositReferralAction e0 ''bob'' (Finite 100) (Some []) w_users = (Ok, w_users) \<and>
   processDepositReferralAction e0 ''bob'' (Finite 100) (Some ''ZZZ'') w_users
     = (Failure msg_invalid_referral, w_users) \<and>
   snd (processDepositReferralAction e0 ''bob'' (Finite 100) (Some ''ABC'') w_users)
     \<noteq> w_users \<and>
   fst (processDepositReferralAction e0 ''bob'' (Finite 100) (Some ''ABC'') w_users)
     = OkCommission (Finite 5)"
proof -
  have h1: "''ZZZ'' \<noteq> [] \<and> \<not> fault e0 0 \<and>
      (\<forall>(i, u) \<in> set (users w_users). referralCode u \<noteq> Some ''ZZZ'')"
    by (simp add: example_defs)
  have h2: "snd (processDepositReferralAction e0 ''bob'' (Finite 100) (Some ''ABC'') w_users)
      \<noteq> w_users"
    by (simp add: processDepositReferralAction_unfold
        referrerQuery_def referral_writes_def increment_def referralActions_imports_def
        request_defs query_defs example_defs Let_def)
  from C10_without_referrer [of e0 "''bob''" "Finite 100" w_users "''ZZZ''" "Some ''ABC''"] h1 h2
  show ?thesis
    by (auto simp: five_percent_of_100)
qed

end
